theory Spec2Isabelle
  imports Complex_Main "HOL-Library.Multiset"
begin

text \<open>
  The ledger core of the brokerage application: client balances, the dashboard's upcoming
  deadline, payments, settlement and restore, and the reconciliation of the buyer's
  commission (\<^verbatim>\<open>syncBuyerCommission\<close>). Each handler is a function from the state it
  reads to the state it leaves in Firestore; a handler that returns early leaves the state
  as it was.
\<close>

section \<open>Numbers\<close>

text \<open>
  A JavaScript \<^verbatim>\<open>number\<close> is an IEEE 754 double: a finite value, which is a rational, an
  infinity or NaN. The sign of zero is not kept; no operation of this theory observes it.
\<close>

datatype number = Num rat | PosInf | NegInf | NaN

text \<open>
  Rounding to the nearest integer, ties to the even one.
\<close>

definition roundHalfEven :: "rat \<Rightarrow> int" where
  "roundHalfEven q =
     (let f = \<lfloor>q\<rfloor>; r = q - of_int f
      in if r < 1 / 2 then f
         else if 1 / 2 < r then f + 1
         else if even f then f else f + 1)"

text \<open>
  The exponent of the unit in the last place of a double near \<open>x\<close>: the largest \<open>e\<close> from
  \<open>971\<close> down to \<open>-1073\<close> with \<open>2 powi (e + 52) \<le> \<bar>x\<bar>\<close>, and \<open>-1074\<close> (the subnormal
  spacing) when there is none. A double is an integer multiple of that unit, of magnitude
  below \<open>2 ^ 53\<close> units.
\<close>

fun search :: "nat \<Rightarrow> rat \<Rightarrow> int" where
  "search 0 x = - 1074"
| "search (Suc n) x =
     (if 2 powi (int n - 1073 + 52) \<le> \<bar>x\<bar> then int n - 1073 else search n x)"

definition expo :: "rat \<Rightarrow> int" where
  "expo x = search 2045 x"

text \<open>
  Round to nearest, ties to even: the result of every arithmetic operation on finite
  doubles. A result of magnitude \<open>2 ^ 1024\<close> or more is an infinity.
\<close>

definition rnd :: "rat \<Rightarrow> number" where
  "rnd x =
     (let e = expo x; y = of_int (roundHalfEven (x / 2 powi e)) * 2 powi e
      in if 2 ^ 1024 \<le> \<bar>y\<bar> then (if 0 < x then PosInf else NegInf) else Num y)"

text \<open>A decimal literal of the source denotes the nearest double.\<close>

definition lit :: "rat \<Rightarrow> number" where
  "lit x = rnd x"

text \<open>
  The operators \<^verbatim>\<open>+\<close>, \<^verbatim>\<open>*\<close>, unary \<^verbatim>\<open>-\<close>, \<^verbatim>\<open>Math.abs\<close>, \<^verbatim>\<open><\<close> and \<^verbatim>\<open><=\<close>. A comparison
  with NaN is false.
\<close>

instantiation number :: "{zero, plus, times, uminus, abs, ord}"
begin

definition zero_number :: number where
  "zero_number = Num 0"

fun uminus_number :: "number \<Rightarrow> number" where
  "uminus_number (Num a) = Num (- a)"
| "uminus_number PosInf = NegInf"
| "uminus_number NegInf = PosInf"
| "uminus_number NaN = NaN"

fun abs_number :: "number \<Rightarrow> number" where
  "abs_number (Num a) = Num \<bar>a\<bar>"
| "abs_number PosInf = PosInf"
| "abs_number NegInf = PosInf"
| "abs_number NaN = NaN"

fun plus_number :: "number \<Rightarrow> number \<Rightarrow> number" where
  "plus_number (Num a) (Num b) = rnd (a + b)"
| "plus_number NaN y = NaN"
| "plus_number x NaN = NaN"
| "plus_number PosInf NegInf = NaN"
| "plus_number NegInf PosInf = NaN"
| "plus_number PosInf y = PosInf"
| "plus_number NegInf y = NegInf"
| "plus_number x PosInf = PosInf"
| "plus_number x NegInf = NegInf"

fun times_number :: "number \<Rightarrow> number \<Rightarrow> number" where
  "times_number (Num a) (Num b) = rnd (a * b)"
| "times_number NaN y = NaN"
| "times_number x NaN = NaN"
| "times_number x y =
     (let s = (case x of Num a \<Rightarrow> sgn a | PosInf \<Rightarrow> 1 | _ \<Rightarrow> - 1)
            * (case y of Num b \<Rightarrow> sgn b | PosInf \<Rightarrow> 1 | _ \<Rightarrow> - 1)
      in if s = 0 then NaN else if 0 < s then PosInf else NegInf)"

fun less_number :: "number \<Rightarrow> number \<Rightarrow> bool" where
  "less_number (Num a) (Num b) = (a < b)"
| "less_number NaN y = False"
| "less_number x NaN = False"
| "less_number x NegInf = False"
| "less_number PosInf y = False"
| "less_number NegInf y = True"
| "less_number x PosInf = True"

definition less_eq_number :: "number \<Rightarrow> number \<Rightarrow> bool" where
  "less_eq_number x y = (x \<noteq> NaN \<and> y \<noteq> NaN \<and> \<not> y < x)"

instance ..

end

section \<open>Ledger model\<close>

text \<open>
  The data shapes of \<^verbatim>\<open>types.ts\<close>. A Firestore \<^verbatim>\<open>Timestamp\<close> is its \<^verbatim>\<open>toMillis()\<close>
  value. An optional field \<^verbatim>\<open>f?: T\<close> is a \<open>T option\<close>, \<open>None\<close> meaning that the field is
  absent.
\<close>

type_synonym timestamp = int

record image_ref =
  img_name :: string
  img_url :: string

text \<open>
  Notes and item names are free text. The Arabic literals that the code writes itself are
  constructors of their own: the commission note carries the auction date that
  \<^verbatim>\<open>formatDate\<close> renders into it.
\<close>

datatype label =
    Text string
  | CommissionNote "timestamp option"
  | SettlementNote
  | PaymentNote
  | ReceiptLabel

record transactionItem =
  item_id :: string
  item_name :: label
  item_quantity :: number
  pricePerKilo :: number
  item_image :: "image_ref option"

record transaction =
  t_id :: string
  amount :: number
  t_notes :: label
  date :: timestamp
  isSettled :: bool
  items :: "transactionItem list option"
  entityId :: "string option"
  t_image :: "image_ref option"

datatype archive_type = Entities | Work | Advances

record client =
  c_id :: string
  c_userId :: string
  c_name :: string
  transactions :: "transaction list"
  isBuyer :: "bool option"
  c_isArchived :: "bool option"
  archiveType :: "archive_type option"
  phone :: "string option"

record paymentDetails_t =
  payerName :: string
  pd_date :: timestamp
  receiptImage :: "image_ref option"

record loadingDetails_t =
  loaderName :: string
  ld_date :: timestamp

record lot =
  l_id :: string
  lotNumber :: string
  l_name :: string
  l_quantity :: string
  totalValue :: number
  value30 :: number
  value70 :: number
  is70Paid :: "bool option"
  paymentDetails :: "paymentDetails_t option"
  loadingDetails :: "loadingDetails_t option"
  contractImage :: "image_ref option"
  l_isArchived :: bool

record entity =
  e_id :: string
  e_userId :: string
  e_name :: string
  buyerName :: "string option"
  auctionDate :: "timestamp option"
  lots :: "lot list"

text \<open>
  What a handler reads from its surroundings: the signed-in user (\<^verbatim>\<open>user.uid\<close>, \<open>None\<close>
  when nobody is signed in), the clock (\<^verbatim>\<open>Date.now()\<close>, in milliseconds) and the
  identifier that Firestore gives to the next document created with \<^verbatim>\<open>addDoc\<close>.
\<close>

record env =
  user :: "string option"
  nowMillis :: nat
  autoId :: string

section \<open>JavaScript helpers\<close>

text \<open>\<^verbatim>\<open>x || 0\<close> on a number: zero and NaN are the falsy numbers.\<close>

definition orZero :: "number \<Rightarrow> number" where
  "orZero x = (if x = 0 \<or> x = NaN then 0 else x)"

text \<open>\<^verbatim>\<open>Array.prototype.reduce((acc, x) => f(acc, x), init)\<close> runs from the left.\<close>

definition reduce :: "('b \<Rightarrow> 'a \<Rightarrow> 'b) \<Rightarrow> 'b \<Rightarrow> 'a list \<Rightarrow> 'b" where
  "reduce f init xs = foldl f init xs"

text \<open>\<^verbatim>\<open>findIndex\<close>: the first position that satisfies the test, \<open>None\<close> for \<^verbatim>\<open>-1\<close>.\<close>

fun findIndex :: "('a \<Rightarrow> bool) \<Rightarrow> 'a list \<Rightarrow> nat option" where
  "findIndex p [] = None"
| "findIndex p (x # xs) = (if p x then Some 0 else map_option Suc (findIndex p xs))"

text \<open>The decimal rendering of \<^verbatim>\<open>`${Date.now()}`\<close>.\<close>

fun decimal :: "nat \<Rightarrow> string" where
  "decimal n = (if n < 10 then [char_of (48 + n)]
                else decimal (n div 10) @ [char_of (48 + n mod 10)])"

declare decimal.simps [simp del]

section \<open>Balance engine\<close>

text \<open>
  The balance of a client, as every card and print layout computes it in place (the
  specification calls it \<^verbatim>\<open>computeClientBalance\<close>):
  \<^verbatim>\<open>client.transactions.reduce((acc, t) => acc + (t.amount || 0), 0)\<close>.
\<close>

definition computeClientBalance :: "transaction list \<Rightarrow> number" where
  "computeClientBalance ts = reduce (\<lambda>acc t. acc + orZero (amount t)) 0 ts"

section \<open>Persistence\<close>

text \<open>
  The two client collections of Firestore. The snapshot listener keeps the React state
  \<^verbatim>\<open>clients\<close> and \<^verbatim>\<open>workClients\<close> equal to the documents of the signed-in user, so
  one list per collection stands for both the state a handler reads and the documents it
  writes. Writes are taken to succeed.
\<close>

record store =
  advanceClients :: "client list"
  workClients :: "client list"

text \<open>
  \<^verbatim>\<open>updateDoc(doc(db, collection, id), fields)\<close> replaces the given fields of the document
  with that identifier and leaves every other document alone.
\<close>

definition updateDoc :: "string \<Rightarrow> (client \<Rightarrow> client) \<Rightarrow> client list \<Rightarrow> client list" where
  "updateDoc i f db = map (\<lambda>d. if c_id d = i then f d else d) db"

section \<open>Dashboard: the upcoming deadline\<close>

text \<open>
  The value \<^verbatim>\<open>upcomingLot\<close> of \<^verbatim>\<open>DashboardMetrics\<close> (the specification calls it
  \<^verbatim>\<open>computeUpcomingDeadline\<close>), with the current time as a parameter.
\<close>

text \<open>\<^verbatim>\<open>!lot.is70Paid\<close> holds for an absent flag and for \<^verbatim>\<open>false\<close>.\<close>

definition paid70 :: "lot \<Rightarrow> bool" where
  "paid70 l = (is70Paid l = Some True)"

definition fifteenDays :: int where
  "fifteenDays = 15 * 24 * 60 * 60 * 1000"

text \<open>\<^verbatim>\<open>{ ...lot, auctionDate: entity?.auctionDate }\<close>\<close>

record datedLot =
  dl_lot :: lot
  dl_auctionDate :: "timestamp option"

text \<open>\<^verbatim>\<open>entities.flatMap(e => (e.lots || []).filter(l => l && !l.isArchived))\<close>\<close>

definition allLots :: "entity list \<Rightarrow> lot list" where
  "allLots entities = concat (map (\<lambda>e. filter (\<lambda>l. \<not> l_isArchived l) (lots e)) entities)"

text \<open>
  The entity of a lot is looked up again by the lot's identifier:
  \<^verbatim>\<open>entities.find(e => e.lots && e.lots.some(l => l.id === lot.id))\<close>.
\<close>

definition withAuctionDate :: "entity list \<Rightarrow> lot \<Rightarrow> datedLot" where
  "withAuctionDate entities lot =
     \<lparr>dl_lot = lot,
      dl_auctionDate =
        (case find (\<lambda>e. list_ex (\<lambda>l. l_id l = l_id lot) (lots e)) entities of
           None \<Rightarrow> None
         | Some e \<Rightarrow> auctionDate e)\<rparr>"

definition deadlineAhead :: "timestamp \<Rightarrow> datedLot \<Rightarrow> bool" where
  "deadlineAhead now d =
     (case dl_auctionDate d of None \<Rightarrow> False | Some a \<Rightarrow> a + fifteenDays > now)"

definition sortDate :: "datedLot \<Rightarrow> int" where
  "sortDate d = (case dl_auctionDate d of None \<Rightarrow> 0 | Some a \<Rightarrow> a)"

text \<open>
  \<^verbatim>\<open>allLots.filter(..).map(..).filter(..).sort((a, b) => dateA - dateB)[0]\<close>; the sort of
  JavaScript is stable, as \<open>sort_key\<close> is, and \<^verbatim>\<open>[0]\<close> of an empty array is
  \<^verbatim>\<open>undefined\<close>, here \<open>None\<close>.
\<close>

definition computeUpcomingDeadline :: "timestamp \<Rightarrow> entity list \<Rightarrow> datedLot option" where
  "computeUpcomingDeadline now entities =
     (case sort_key sortDate
             (filter (deadlineAhead now)
               (map (withAuctionDate entities)
                 (filter (\<lambda>lot. \<not> paid70 lot) (allLots entities)))) of
        [] \<Rightarrow> None
      | x # _ \<Rightarrow> Some x)"

section \<open>Payments\<close>

datatype client_type = Advance | WorkType

record paymentData =
  p_amount :: number
  p_notes :: string
  p_date :: timestamp
  linkedTransactionId :: "string option"
  p_receiptImage :: "image_ref option"

definition collectionOf :: "client_type \<Rightarrow> store \<Rightarrow> client list" where
  "collectionOf ty st = (case ty of Advance \<Rightarrow> advanceClients st | WorkType \<Rightarrow> workClients st)"

definition writeCollection :: "client_type \<Rightarrow> (client list \<Rightarrow> client list) \<Rightarrow> store \<Rightarrow> store" where
  "writeCollection ty w st =
     (case ty of
        Advance \<Rightarrow> st\<lparr>advanceClients := w (advanceClients st)\<rparr>
      | WorkType \<Rightarrow> st\<lparr>workClients := w (workClients st)\<rparr>)"

definition paymentTransaction :: "env \<Rightarrow> paymentData \<Rightarrow> transaction" where
  "paymentTransaction ev pd =
     \<lparr>t_id = decimal (nowMillis ev),
      amount = - \<bar>orZero (p_amount pd)\<bar>,
      t_notes = (if p_notes pd = [] then PaymentNote else Text (p_notes pd)),
      date = p_date pd,
      isSettled = True,
      items = Some (case p_receiptImage pd of
                      Some img \<Rightarrow> [\<lparr>item_id = ''receipt_'' @ decimal (nowMillis ev),
                                    item_name = ReceiptLabel, item_quantity = 0,
                                    pricePerKilo = 0, item_image = Some img\<rparr>]
                    | None \<Rightarrow> []),
      entityId = None,
      t_image = None\<rparr>"

text \<open>A linked purchase is marked as settled; an absent or empty link is falsy.\<close>

definition markLinked :: "string option \<Rightarrow> transaction list \<Rightarrow> transaction list" where
  "markLinked link ts =
     (case link of
        None \<Rightarrow> ts
      | Some l \<Rightarrow> if l = [] then ts
                  else map (\<lambda>t. if t_id t = l then t\<lparr>isSettled := True\<rparr> else t) ts)"

definition paid :: "env \<Rightarrow> paymentData \<Rightarrow> client \<Rightarrow> client \<Rightarrow> client" where
  "paid ev pd client d =
     d\<lparr>transactions :=
         markLinked (linkedTransactionId pd) (transactions client @ [paymentTransaction ev pd])\<rparr>"

definition addPayment :: "env \<Rightarrow> paymentData \<Rightarrow> string \<Rightarrow> client_type \<Rightarrow> store \<Rightarrow> store" where
  "addPayment ev pd clientId ty st =
     (case user ev of
        None \<Rightarrow> st
      | Some uid \<Rightarrow>
          (case find (\<lambda>c. c_id c = clientId) (collectionOf ty st) of
             None \<Rightarrow> st
           | Some client \<Rightarrow>
               writeCollection ty (updateDoc clientId (paid ev pd client)) st))"

section \<open>Settlement and restore\<close>

record settleTarget =
  st_client :: client
  st_total :: number

definition balancingTransaction :: "env \<Rightarrow> number \<Rightarrow> transaction" where
  "balancingTransaction ev totalAmount =
     \<lparr>t_id = ''settle_'' @ decimal (nowMillis ev),
      amount = - totalAmount,
      t_notes = SettlementNote,
      date = int (nowMillis ev),
      isSettled = True,
      items = Some [],
      entityId = None,
      t_image = None\<rparr>"

definition settled :: "env \<Rightarrow> client \<Rightarrow> number \<Rightarrow> archive_type \<Rightarrow> client \<Rightarrow> client" where
  "settled ev client totalAmount archive d =
     d\<lparr>transactions := transactions client @ [balancingTransaction ev totalAmount],
       c_isArchived := Some True,
       archiveType := Some archive\<rparr>"

definition confirmSettleAndArchive :: "env \<Rightarrow> settleTarget option \<Rightarrow> store \<Rightarrow> store" where
  "confirmSettleAndArchive ev target st =
     (case target of
        None \<Rightarrow> st
      | Some tg \<Rightarrow>
          (case user ev of
             None \<Rightarrow> st
           | Some uid \<Rightarrow>
               (let client = st_client tg;
                    totalAmount = st_total tg;
                    isAdvanceClient = list_ex (\<lambda>c. c_id c = c_id client) (advanceClients st);
                    isWorkClient = list_ex (\<lambda>c. c_id c = c_id client) (workClients st)
                in if isAdvanceClient then
                     writeCollection Advance
                       (updateDoc (c_id client) (settled ev client totalAmount Advances)) st
                   else if isWorkClient then
                     writeCollection WorkType
                       (updateDoc (c_id client) (settled ev client totalAmount Work)) st
                   else st)))"

text \<open>
  The settle button of a client card: the card computes the balance of the client it shows,
  offers the button when \<^verbatim>\<open>Math.abs(total) > 0\<close>, and hands client and total to
  \<^verbatim>\<open>handleSettleClient\<close>, whose target the confirmation then reads.
\<close>

definition settleAndArchive :: "env \<Rightarrow> client \<Rightarrow> store \<Rightarrow> store" where
  "settleAndArchive ev client st =
     (let totalAmount = computeClientBalance (transactions client)
      in if \<bar>totalAmount\<bar> > 0
         then confirmSettleAndArchive ev (Some \<lparr>st_client = client, st_total = totalAmount\<rparr>) st
         else st)"

text \<open>\<^verbatim>\<open>archiveType: deleteField()\<close> removes the field: it is absent afterwards.\<close>

definition restored :: "client \<Rightarrow> client" where
  "restored d = d\<lparr>c_isArchived := Some False, archiveType := None\<rparr>"

definition confirmRestoreClient :: "env \<Rightarrow> client option \<Rightarrow> store \<Rightarrow> store" where
  "confirmRestoreClient ev clientToRestore st =
     (case clientToRestore of
        None \<Rightarrow> st
      | Some client \<Rightarrow>
          (case user ev of
             None \<Rightarrow> st
           | Some uid \<Rightarrow>
               (let isAdvanceClient = list_ex (\<lambda>c. c_id c = c_id client) (advanceClients st);
                    isWorkClient = list_ex (\<lambda>c. c_id c = c_id client) (workClients st)
                in if isAdvanceClient then
                     writeCollection Advance (updateDoc (c_id client) restored) st
                   else if isWorkClient then
                     writeCollection WorkType (updateDoc (c_id client) restored) st
                   else st)))"

section \<open>Commission reconciliation\<close>

text \<open>
  \<^verbatim>\<open>syncBuyerCommission(entityData)\<close>. The comparisons \<^verbatim>\<open>client.name === buyerName\<close>
  and \<^verbatim>\<open>t.entityId === entityId\<close> are strict: an absent buyer name or entity identifier
  equals no string.
\<close>

definition activeLots :: "entity \<Rightarrow> lot list" where
  "activeLots E = filter (\<lambda>l. \<not> l_isArchived l) (lots E)"

definition commission :: "entity \<Rightarrow> number" where
  "commission E =
     reduce (\<lambda>sum l. sum + orZero (totalValue l)) 0 (activeLots E) * lit (5 / 1000)"

definition ofEntity :: "entity \<Rightarrow> transaction \<Rightarrow> bool" where
  "ofEntity E t = (entityId t = Some (e_id E))"

definition commissionDate :: "env \<Rightarrow> entity \<Rightarrow> timestamp" where
  "commissionDate ev E = (case auctionDate E of Some a \<Rightarrow> a | None \<Rightarrow> int (nowMillis ev))"

text \<open>Case A with a positive commission: the transaction found is overwritten in place.\<close>

definition refreshed :: "env \<Rightarrow> entity \<Rightarrow> client \<Rightarrow> nat \<Rightarrow> client \<Rightarrow> client" where
  "refreshed ev E client i d =
     d\<lparr>transactions :=
         (transactions client)
           [i := (transactions client ! i)
                   \<lparr>amount := - commission E,
                     date := commissionDate ev E,
                     t_notes := CommissionNote (auctionDate E),
                     isSettled := True\<rparr>],
       isBuyer := Some True\<rparr>"

text \<open>Case A with no commission, and case B: every transaction of the entity is dropped.\<close>

definition stripped :: "entity \<Rightarrow> client \<Rightarrow> client \<Rightarrow> client" where
  "stripped E client d =
     d\<lparr>transactions := filter (\<lambda>t. \<not> ofEntity E t) (transactions client)\<rparr>"

text \<open>
  The loop over \<^verbatim>\<open>clients\<close>. It reads the clients of the state and writes to the
  collection \<open>db\<close>; the flag tells whether the function returned from inside the loop.
\<close>

fun scanClients :: "env \<Rightarrow> entity \<Rightarrow> client list \<Rightarrow> client list \<Rightarrow> bool \<times> client list" where
  "scanClients ev E [] db = (False, db)"
| "scanClients ev E (client # rest) db =
     (case findIndex (ofEntity E) (transactions client) of
        None \<Rightarrow> scanClients ev E rest db
      | Some transactionIndex \<Rightarrow>
          if Some (c_name client) = buyerName E then
            (True,
             if commission E > 0
             then updateDoc (c_id client) (refreshed ev E client transactionIndex) db
             else updateDoc (c_id client) (stripped E client) db)
          else scanClients ev E rest (updateDoc (c_id client) (stripped E client) db))"

definition newTransaction :: "env \<Rightarrow> entity \<Rightarrow> transaction" where
  "newTransaction ev E =
     \<lparr>t_id = decimal (nowMillis ev) @ ''_comm'',
      amount = - commission E,
      t_notes = CommissionNote (auctionDate E),
      date = commissionDate ev E,
      isSettled = True,
      items = Some [],
      entityId = Some (e_id E),
      t_image = None\<rparr>"

text \<open>Step 3: the buyer found in the state gets the new transaction at the end of its list.\<close>

definition credited :: "env \<Rightarrow> entity \<Rightarrow> client \<Rightarrow> client \<Rightarrow> client" where
  "credited ev E buyerClient d =
     d\<lparr>transactions := transactions buyerClient @ [newTransaction ev E],
       isBuyer := Some True\<rparr>"

definition newBuyer :: "env \<Rightarrow> entity \<Rightarrow> string \<Rightarrow> string \<Rightarrow> client" where
  "newBuyer ev E uid bn =
     \<lparr>c_id = autoId ev, c_userId = uid, c_name = bn,
      transactions = [newTransaction ev E],
      isBuyer = Some True, c_isArchived = None, archiveType = None, phone = None\<rparr>"

definition syncBuyerCommission :: "env \<Rightarrow> entity \<Rightarrow> client list \<Rightarrow> client list" where
  "syncBuyerCommission ev E clients =
     (case user ev of
        None \<Rightarrow> clients
      | Some uid \<Rightarrow>
          (case scanClients ev E clients clients of
             (True, db) \<Rightarrow> db
           | (False, db) \<Rightarrow>
               (case buyerName E of
                  None \<Rightarrow> db
                | Some bn \<Rightarrow>
                    if commission E > 0 \<and> bn \<noteq> [] then
                      (case find (\<lambda>c. c_name c = bn) clients of
                         Some buyerClient \<Rightarrow>
                           updateDoc (c_id buyerClient) (credited ev E buyerClient) db
                       | None \<Rightarrow> db @ [newBuyer ev E uid bn])
                    else db)))"

text \<open>How many transactions of an entity the clients hold, and who holds one.\<close>

definition holds :: "entity \<Rightarrow> client \<Rightarrow> bool" where
  "holds E c = list_ex (ofEntity E) (transactions c)"

definition commissionCount :: "entity \<Rightarrow> client list \<Rightarrow> nat" where
  "commissionCount E cs = sum_list (map (\<lambda>c. length (filter (ofEntity E) (transactions c))) cs)"

section \<open>Notions used in the statements\<close>

text \<open>The archive category that belongs to a collection.\<close>

definition archiveOf :: "client_type \<Rightarrow> archive_type" where
  "archiveOf ty = (case ty of Advance \<Rightarrow> Advances | WorkType \<Rightarrow> Work)"

text \<open>
  The client at which the loop returns: it holds a transaction of the entity and bears the
  buyer's name.
\<close>

definition target :: "entity \<Rightarrow> client \<Rightarrow> bool" where
  "target E c = (holds E c \<and> Some (c_name c) = buyerName E)"

text \<open>What case A writes to that client\<close>

definition caseA :: "env \<Rightarrow> entity \<Rightarrow> client \<Rightarrow> client" where
  "caseA ev E c =
     (case findIndex (ofEntity E) (transactions c) of
        None \<Rightarrow> c
      | Some i \<Rightarrow> if commission E > 0 then refreshed ev E c i c else stripped E c c)"

text \<open>A client without the transactions of the entity.\<close>

definition strip :: "entity \<Rightarrow> client \<Rightarrow> client" where
  "strip E c = stripped E c c"

text \<open>
  The loop seen position by position: clients are stripped up to the first target, which
  gets the write of case A; the clients behind it are not visited.
\<close>

fun scanned :: "env \<Rightarrow> entity \<Rightarrow> client list \<Rightarrow> client list" where
  "scanned ev E [] = []"
| "scanned ev E (c # cs) =
     (if target E c then caseA ev E c # cs else strip E c # scanned ev E cs)"

definition ownCount :: "entity \<Rightarrow> client \<Rightarrow> nat" where
  "ownCount E c = length (filter (ofEntity E) (transactions c))"

text \<open>
  The sums of this theory in exact arithmetic: the value of a finite number, the exact sum
  of the values that a function reads off a list, the sum of their magnitudes, and the
  numbers that are integers.
\<close>

definition exact :: "number \<Rightarrow> rat" where
  "exact x = (case x of Num a \<Rightarrow> a | _ \<Rightarrow> 0)"

definition integral :: "number \<Rightarrow> bool" where
  "integral x = (case x of Num a \<Rightarrow> of_int \<lfloor>a\<rfloor> = a | _ \<Rightarrow> False)"

definition exactSum :: "('a \<Rightarrow> number) \<Rightarrow> 'a list \<Rightarrow> rat" where
  "exactSum f xs = sum_list (map (\<lambda>x. exact (f x)) xs)"

definition magnitude :: "('a \<Rightarrow> number) \<Rightarrow> 'a list \<Rightarrow> rat" where
  "magnitude f xs = sum_list (map (\<lambda>x. \<bar>exact (f x)\<bar>) xs)"

text \<open>
  A lot that the dashboard card may show: active, its 70 percent unpaid, and the deadline of
  its entity (auction date plus fifteen days) still ahead.
\<close>

definition qualifies :: "timestamp \<Rightarrow> entity \<Rightarrow> lot \<Rightarrow> bool" where
  "qualifies now e l =
     (\<not> l_isArchived l \<and> \<not> paid70 l \<and>
      (case auctionDate e of None \<Rightarrow> False | Some a \<Rightarrow> now < a + fifteenDays))"

text \<open>The identifiers of all lots, entity by entity.\<close>

definition lotIds :: "entity list \<Rightarrow> string list" where
  "lotIds entities = map l_id (concat (map lots entities))"

text \<open>The lots that reach the sort.\<close>

definition candidates :: "timestamp \<Rightarrow> entity list \<Rightarrow> datedLot list" where
  "candidates now entities =
     filter (deadlineAhead now)
       (map (withAuctionDate entities) (filter (\<lambda>lot. \<not> paid70 lot) (allLots entities)))"

section \<open>Example values\<close>

definition exEnv :: env where
  "exEnv = \<lparr>user = Some ''u1'', nowMillis = 1000, autoId = ''new1''\<rparr>"

definition mkTransaction :: "string \<Rightarrow> rat \<Rightarrow> transaction" where
  "mkTransaction i a =
     \<lparr>t_id = i, amount = lit a, t_notes = Text [], date = 0, isSettled = False,
      items = Some [], entityId = None, t_image = None\<rparr>"

definition mkClient :: "string \<Rightarrow> string \<Rightarrow> transaction list \<Rightarrow> client" where
  "mkClient i n ts =
     \<lparr>c_id = i, c_userId = ''u1'', c_name = n, transactions = ts, isBuyer = None,
      c_isArchived = None, archiveType = None, phone = None\<rparr>"

definition mkCommission :: "string \<Rightarrow> rat \<Rightarrow> transaction" where
  "mkCommission eid a =
     \<lparr>t_id = ''1_comm'', amount = lit a, t_notes = CommissionNote (Some 0), date = 0,
      isSettled = True, items = Some [], entityId = Some eid, t_image = None\<rparr>"

definition mkLot :: "string \<Rightarrow> rat \<Rightarrow> bool \<Rightarrow> lot" where
  "mkLot i v archived =
     \<lparr>l_id = i, lotNumber = i, l_name = [], l_quantity = [], totalValue = lit v,
      value30 = 0, value70 = lit v, is70Paid = None, paymentDetails = None,
      loadingDetails = None, contractImage = None, l_isArchived = archived\<rparr>"

definition mkEntity :: "string \<Rightarrow> string option \<Rightarrow> lot list \<Rightarrow> entity" where
  "mkEntity i b ls =
     \<lparr>e_id = i, e_userId = ''u1'', e_name = [], buyerName = b, auctionDate = Some 0,
      lots = ls\<rparr>"

definition exLedger :: "transaction list" where
  "exLedger = [mkTransaction ''1'' 500, mkTransaction ''2'' (- 200)]"

definition exHuge :: "transaction list" where
  "exHuge = [mkTransaction ''1'' (2 ^ 1023), mkTransaction ''2'' (2 ^ 1023)]"

definition exRounded :: "transaction list" where
  "exRounded = [mkTransaction ''1'' (10001 / 10), mkTransaction ''2'' (10001 / 5),
                mkTransaction ''3'' (- (30003 / 10))]"

definition exStore :: store where
  "exStore = \<lparr>advanceClients = [mkClient ''c1'' ''Ahmed'' exLedger],
              workClients = [mkClient ''w1'' ''Sara'' exLedger]\<rparr>"

definition exPayment :: paymentData where
  "exPayment = \<lparr>p_amount = lit 300, p_notes = [], p_date = 5, linkedTransactionId = Some ''1'',
                 p_receiptImage = None\<rparr>"

definition exArchived :: client where
  "exArchived = (mkClient ''c1'' ''Ahmed'' exLedger)
                   \<lparr>c_isArchived := Some True, archiveType := Some Advances\<rparr>"

definition exLots :: "lot list" where
  "exLots = [mkLot ''l1'' 1000 False, mkLot ''l2'' 2000 False, mkLot ''l3'' 500 False,
             mkLot ''l4'' 10000 True]"

definition exEntity :: "string option \<Rightarrow> entity" where
  "exEntity b = mkEntity ''e1'' b exLots"

definition exShipped :: "string option \<Rightarrow> entity" where
  "exShipped b = mkEntity ''e1'' b [mkLot ''l1'' 1000 True]"

definition ex35 :: entity where
  "ex35 = mkEntity ''e1'' (Some ''B'') [mkLot ''l1'' 35 False]"

definition exOld :: transaction where
  "exOld = mkCommission ''e1'' (- 5)"

definition summary :: "entity \<Rightarrow> client list \<Rightarrow> (string \<times> string \<times> number list) list" where
  "summary E cs = map (\<lambda>c. (c_id c, c_name c, map amount (filter (ofEntity E) (transactions c)))) cs"

definition exAuction :: "string \<Rightarrow> timestamp \<Rightarrow> lot list \<Rightarrow> entity" where
  "exAuction i a ls = (mkEntity i None ls)\<lparr>auctionDate := Some a\<rparr>"

definition exAuctions :: "entity list" where
  "exAuctions =
     [exAuction ''e1'' 100 [mkLot ''l1'' 1000 False],
      exAuction ''e2'' 50 [mkLot ''l2'' 2000 False, (mkLot ''l3'' 500 False)\<lparr>is70Paid := Some True\<rparr>]]"

section \<open>Properties of the numbers\<close>

lemma search_bounds: "- 1074 \<le> search n x \<and> search n x \<le> int n - 1074"
  by (induction n) auto

lemma search_found: "search n x \<noteq> - 1074 \<Longrightarrow> 2 powi (search n x + 52) \<le> \<bar>x\<bar>"
  by (induction n) (auto split: if_splits)

lemma search_unique:
  assumes "- 1074 < e" "e \<le> int n - 1074" "2 powi (e + 52) \<le> \<bar>x\<bar>" "\<bar>x\<bar> < 2 powi (e + 53)"
  shows "search n x = e"
  using assms
proof (induction n)
  case 0
  then show ?case by simp
next
  case (Suc n)
  let ?c = "int n - 1073"
  show ?case
  proof (cases "2 powi (?c + 52) \<le> \<bar>x\<bar>")
    case True
    have "?c = e"
    proof (rule ccontr)
      assume "?c \<noteq> e"
      with Suc.prems(2) have "e + 53 \<le> ?c + 52" by simp
      then have "(2::rat) powi (e + 53) \<le> 2 powi (?c + 52)"
        by (intro power_int_increasing) simp_all
      with True Suc.prems(4) show False by simp
    qed
    with True show ?thesis by simp
  next
    case False
    with Suc.prems(3) have "e \<noteq> ?c" by auto
    with Suc.prems(2) have "e \<le> int n - 1074" by simp
    from Suc.IH [OF Suc.prems(1) this Suc.prems(3,4)] False show ?thesis by simp
  qed
qed

lemma search_small:
  assumes "\<bar>x\<bar> < 2 powi (- 1021)"
  shows "search n x = - 1074"
proof (induction n)
  case 0
  show ?case by simp
next
  case (Suc n)
  have "(2::rat) powi (- 1021) \<le> 2 powi (int n - 1073 + 52)"
    by (intro power_int_increasing) simp_all
  with assms have "\<not> 2 powi (int n - 1073 + 52) \<le> \<bar>x\<bar>" by simp
  with Suc show ?case by simp
qed

lemma roundHalfEven_of_int [simp]: "roundHalfEven (of_int k) = k"
  by (simp add: roundHalfEven_def Let_def)

lemma roundHalfEven_lower: "of_int k \<le> q \<Longrightarrow> k \<le> roundHalfEven q"
proof -
  assume "of_int k \<le> q"
  then have "k \<le> \<lfloor>q\<rfloor>" by (simp add: le_floor_iff)
  then show ?thesis by (auto simp: roundHalfEven_def Let_def)
qed

lemma roundHalfEven_zero [simp]: "roundHalfEven 0 = 0"
  using roundHalfEven_of_int [of 0] by simp

lemma floor_numeral_quotient:
  "\<lfloor>numeral a / numeral b :: rat\<rfloor> = numeral a div numeral b"
  "\<lfloor>- (numeral a / numeral b) :: rat\<rfloor> = - numeral a div numeral b"
  using floor_divide_of_int_eq [of "numeral a" "numeral b", where ?'a = rat]
    floor_divide_of_int_eq [of "- numeral a" "numeral b", where ?'a = rat]
  by simp_all

lemma roundHalfEven_numeral [simp]: "roundHalfEven (numeral k) = numeral k"
  using roundHalfEven_of_int [of "numeral k"] by simp

lemma rnd_zero [simp]: "rnd 0 = Num 0"
  by (simp add: rnd_def expo_def search_small)

text \<open>Evaluating a rounding whose binade is known.\<close>

lemma rnd_in_range:
  assumes "- 1074 < e" "e \<le> 971" "2 powi (e + 52) \<le> \<bar>x\<bar>" "\<bar>x\<bar> < 2 powi (e + 53)"
    and "roundHalfEven (x / 2 powi e) = m" "\<bar>of_int m * 2 powi e\<bar> < (2::rat) ^ 1024"
  shows "rnd x = Num (of_int m * 2 powi e)"
proof -
  have "expo x = e"
    unfolding expo_def using assms(1-4) by (intro search_unique) simp_all
  with assms(5,6) show ?thesis
    by (simp add: rnd_def Let_def)
qed

lemma rnd_int:
  assumes "x \<in> \<int>" "\<bar>x\<bar> < 2 ^ 53"
  shows "rnd x = Num x"
proof -
  let ?e = "expo x"
  have e: "?e \<le> 0"
  proof (cases "?e = - 1074")
    case True
    then show ?thesis by simp
  next
    case False
    then have "2 powi (?e + 52) \<le> \<bar>x\<bar>"
      unfolding expo_def by (rule search_found)
    with assms(2) have lt: "(2::rat) powi (?e + 52) < 2 powi 53" by simp
    show ?thesis
    proof (rule ccontr)
      assume "\<not> ?e \<le> 0"
      then have "53 \<le> ?e + 52" by simp
      then have "(2::rat) powi 53 \<le> 2 powi (?e + 52)"
        by (intro power_int_increasing) simp_all
      with lt show False by simp
    qed
  qed
  from assms(1) obtain k where k: "x = of_int k" by (auto elim: Ints_cases)
  have p: "1 / (2::rat) powi ?e = of_int (2 ^ nat (- ?e))"
    using e by (simp add: power_int_def field_simps)
  have "x / 2 powi ?e = of_int (k * 2 ^ nat (- ?e))"
    using p by (simp add: k field_simps)
  then have "roundHalfEven (x / 2 powi ?e) = k * 2 ^ nat (- ?e)"
    by (simp only: roundHalfEven_of_int)
  moreover have "of_int (k * 2 ^ nat (- ?e)) * (2::rat) powi ?e = x"
    using e by (simp add: k power_int_def field_simps)
  moreover have "\<bar>x\<bar> < 2 ^ 1024"
  proof -
    have "(2::rat) ^ 53 \<le> 2 ^ 1024" by (intro power_increasing) simp_all
    with assms(2) show ?thesis by simp
  qed
  ultimately show ?thesis
    by (simp add: rnd_def Let_def)
qed

lemma rnd_overflow:
  assumes "2 ^ 1024 \<le> x"
  shows "rnd x = PosInf"
proof -
  have pos: "0 < x" using assms by (rule less_le_trans [rotated]) simp
  have "(2::rat) powi (971 + 52) \<le> 2 ^ 1024" by simp
  with assms pos have "2 powi (int 2044 - 1073 + 52) \<le> \<bar>x\<bar>" by simp
  with search.simps(2) [of 2044 x] have e: "expo x = 971"
    by (simp add: expo_def)
  have "of_int (2 ^ 53) \<le> x / 2 powi 971"
    using assms by (simp add: field_simps)
  from roundHalfEven_lower [OF this] have m: "2 ^ 53 \<le> roundHalfEven (x / 2 powi 971)" .
  then have "(2::rat) ^ 53 \<le> of_int (roundHalfEven (x / 2 powi 971))"
    by (metis of_int_le_iff of_int_numeral of_int_power)
  then have "(2::rat) ^ 53 * 2 powi 971 \<le> of_int (roundHalfEven (x / 2 powi 971)) * 2 powi 971"
    by (intro mult_right_mono) simp_all
  moreover have "(2::rat) ^ 53 * 2 powi 971 = 2 ^ 1024" by simp
  ultimately have "2 ^ 1024 \<le> \<bar>of_int (roundHalfEven (x / 2 powi 971)) * (2::rat) powi 971\<bar>"
    by linarith
  with e pos show ?thesis
    by (simp only: rnd_def Let_def if_True)
qed

lemma lit_int [simp]: "x \<in> \<int> \<Longrightarrow> \<bar>x\<bar> < 2 ^ 53 \<Longrightarrow> lit x = Num x"
  by (simp add: lit_def rnd_int)

lemma zero_less_number [simp]:
  "(0::number) < Num a \<longleftrightarrow> 0 < a"
  "(0::number) < PosInf"
  "\<not> (0::number) < NegInf"
  "\<not> (0::number) < NaN"
  by (simp_all add: zero_number_def)

lemma number_le_zero [simp]:
  "Num a \<le> (0::number) \<longleftrightarrow> a \<le> 0"
  "\<not> PosInf \<le> (0::number)"
  "NegInf \<le> (0::number)"
  "\<not> NaN \<le> (0::number)"
  by (auto simp: zero_number_def less_eq_number_def)

lemma le_zero_not_pos: "x \<le> (0::number) \<Longrightarrow> \<not> 0 < x"
  by (cases x) simp_all

lemma pos_not_le_zero: "(0::number) < x \<Longrightarrow> \<not> x \<le> 0"
  by (cases x) simp_all

lemma Num_plus_uminus [simp]: "Num b + - Num b = 0"
  by (simp add: zero_number_def)

lemma Num_eq_zero [simp]: "Num a = 0 \<longleftrightarrow> a = 0" "0 = Num a \<longleftrightarrow> a = 0"
  by (auto simp: zero_number_def)

lemma orZero_Num [simp]: "orZero (Num a) = Num a"
  by (auto simp: orZero_def)

lemma orZero_number: "x \<noteq> NaN \<Longrightarrow> orZero x = x"
  by (auto simp: orZero_def)

lemma orZero_NaN [simp]: "orZero NaN = 0"
  by (simp add: orZero_def)

lemma orZero_Inf [simp]: "orZero PosInf = PosInf" "orZero NegInf = NegInf"
  by (simp_all add: orZero_def zero_number_def)

lemma integral_Num: "integral x \<longleftrightarrow> (\<exists>k. x = Num (of_int k))"
proof (cases x)
  case (Num a)
  have "of_int \<lfloor>a\<rfloor> = a \<longleftrightarrow> (\<exists>k. a = of_int k)"
    by (metis of_int_floor_cancel Ints_of_int)
  with Num show ?thesis by (simp add: integral_def)
qed (simp_all add: integral_def)

text \<open>
  A sum of integers whose magnitudes stay below \<open>2 ^ 53\<close> together is computed without
  rounding.
\<close>

lemma foldl_exact:
  assumes "\<forall>x \<in> set xs. integral (f x)" "a \<in> \<int>" "\<bar>a\<bar> + magnitude f xs < 2 ^ 53"
  shows "foldl (\<lambda>acc x. acc + orZero (f x)) (Num a) xs = Num (a + exactSum f xs)"
  using assms
proof (induction xs arbitrary: a)
  case Nil
  then show ?case by (simp add: exactSum_def)
next
  case (Cons x xs)
  from Cons.prems(1) obtain k where k: "f x = Num (of_int k)"
    by (auto simp: integral_Num)
  have m: "magnitude f (x # xs) = \<bar>of_int k\<bar> + magnitude f xs"
    by (simp add: magnitude_def k exact_def)
  have nn: "0 \<le> magnitude f xs"
    unfolding magnitude_def by (rule sum_list_nonneg) auto
  have in_Z: "a + of_int k \<in> \<int>" using Cons.prems(2) by simp
  have small: "\<bar>a + of_int k\<bar> < 2 ^ 53"
    using Cons.prems(3) m nn by linarith
  have step: "Num a + orZero (f x) = Num (a + of_int k)"
    using in_Z small by (simp add: k rnd_int)
  have "\<bar>a + of_int k\<bar> + magnitude f xs < 2 ^ 53"
    using Cons.prems(3) m by linarith
  from Cons.IH [OF _ in_Z this] Cons.prems(1)
  have ih: "foldl (\<lambda>acc x. acc + orZero (f x)) (Num (a + of_int k)) xs
        = Num (a + of_int k + exactSum f xs)"
    by simp
  have "foldl (\<lambda>acc x. acc + orZero (f x)) (Num a) (x # xs)
        = foldl (\<lambda>acc x. acc + orZero (f x)) (Num a + orZero (f x)) xs"
    by simp
  also have "\<dots> = Num (a + of_int k + exactSum f xs)"
    by (simp only: step ih)
  also have "a + of_int k + exactSum f xs = a + exactSum f (x # xs)"
    by (simp add: exactSum_def k exact_def)
  finally show ?case .
qed

section \<open>Properties of the balance engine\<close>

lemma mkClient_sel [simp]:
  "c_id (mkClient i n ts) = i"
  "c_name (mkClient i n ts) = n"
  "transactions (mkClient i n ts) = ts"
  by (simp_all add: mkClient_def)

lemma mkTransaction_amount [simp]: "amount (mkTransaction i a) = lit a"
  by (simp add: mkTransaction_def)

lemma computeClientBalance_Nil [simp]: "computeClientBalance [] = 0"
  by (simp add: computeClientBalance_def reduce_def)

lemma computeClientBalance_append:
  "computeClientBalance (ts @ [t]) = computeClientBalance ts + orZero (amount t)"
  by (simp add: computeClientBalance_def reduce_def)

lemma computeClientBalance_exact:
  assumes "\<forall>t \<in> set ts. integral (amount t)" "magnitude amount ts < 2 ^ 53"
  shows "computeClientBalance ts = Num (exactSum amount ts)"
  using foldl_exact [of ts amount 0] assms
  by (simp add: computeClientBalance_def reduce_def zero_number_def)

lemma exact_sums_mset:
  assumes "mset xs = mset ys"
  shows "exactSum f xs = exactSum f ys" "magnitude f xs = magnitude f ys"
proof -
  have "sum_list (map g xs) = sum_list (map g ys)" for g :: "'a \<Rightarrow> rat"
    using assms by (metis mset_map sum_mset_sum_list)
  then show "exactSum f xs = exactSum f ys" "magnitude f xs = magnitude f ys"
    by (simp_all add: exactSum_def magnitude_def)
qed

lemma exLedger_balance: "computeClientBalance exLedger = Num 300"
  by (simp add: exLedger_def computeClientBalance_def reduce_def zero_number_def rnd_int)

text \<open>
  C5. The balance is the sum of the amounts taken from the left in double arithmetic, each
  partial sum rounded; the empty list has balance \<open>0\<close>. When every amount is an integer
  and the magnitudes add up to less than \<open>2 ^ 53\<close>, no partial sum is rounded: the balance
  is the exact sum and every reordering of the list has the same balance.
\<close>

theorem computeClientBalance_is_sum:
  "computeClientBalance [] = 0
   \<and> computeClientBalance (L @ [t]) = computeClientBalance L + orZero (amount t)
   \<and> ((\<forall>t \<in> set L. integral (amount t)) \<and> magnitude amount L < 2 ^ 53 \<longrightarrow>
        computeClientBalance L = Num (exactSum amount L)
        \<and> (\<forall>L'. mset L' = mset L \<longrightarrow> computeClientBalance L' = computeClientBalance L))"
proof -
  have "computeClientBalance L = Num (exactSum amount L)
        \<and> (\<forall>L'. mset L' = mset L \<longrightarrow> computeClientBalance L' = computeClientBalance L)"
    if i: "\<forall>t \<in> set L. integral (amount t)" and m: "magnitude amount L < 2 ^ 53"
  proof -
    have a: "computeClientBalance L = Num (exactSum amount L)"
      using i m by (rule computeClientBalance_exact)
    have "computeClientBalance L' = computeClientBalance L" if p: "mset L' = mset L" for L'
    proof -
      from p have "set L' = set L" by (rule mset_eq_setD)
      with i have i': "\<forall>t \<in> set L'. integral (amount t)" by simp
      from exact_sums_mset [OF p, of amount] m
      have e: "exactSum amount L' = exactSum amount L" and m': "magnitude amount L' < 2 ^ 53"
        by simp_all
      from computeClientBalance_exact [OF i' m'] a e show ?thesis by simp
    qed
    with a show ?thesis by blast
  qed
  with computeClientBalance_Nil computeClientBalance_append [of L t] show ?thesis
    by blast
qed

theorem computeClientBalance_is_sum_witness:
  "magnitude amount [mkTransaction ''1'' 500, mkTransaction ''2'' (- 200), mkTransaction ''3'' 150] = 850
   \<and> computeClientBalance [mkTransaction ''1'' 500, mkTransaction ''2'' (- 200), mkTransaction ''3'' 150]
       = Num 450
   \<and> mset [mkTransaction ''3'' 150, mkTransaction ''1'' 500, mkTransaction ''2'' (- 200)]
       = mset [mkTransaction ''1'' 500, mkTransaction ''2'' (- 200), mkTransaction ''3'' 150]
   \<and> computeClientBalance [mkTransaction ''3'' 150, mkTransaction ''1'' 500, mkTransaction ''2'' (- 200)]
       = Num 450"
proof -
  let ?L = "[mkTransaction ''1'' 500, mkTransaction ''2'' (- 200), mkTransaction ''3'' 150]"
  let ?L' = "[mkTransaction ''3'' 150, mkTransaction ''1'' 500, mkTransaction ''2'' (- 200)]"
  have h1: "\<forall>t \<in> set ?L. integral (amount t)"
    by (simp add: integral_def)
  have h2: "magnitude amount ?L = 850"
    by (simp add: magnitude_def exact_def)
  then have h2': "magnitude amount ?L < 2 ^ 53" by simp
  have m: "mset ?L' = mset ?L" by (simp add: add.commute)
  have e: "exactSum amount ?L = 450" by (simp add: exactSum_def exact_def)
  from computeClientBalance_is_sum [of ?L] h1 h2'
  have v: "computeClientBalance ?L = Num (exactSum amount ?L)"
    and p: "\<forall>L'. mset L' = mset ?L \<longrightarrow> computeClientBalance L' = computeClientBalance ?L"
    by blast+
  from p m have "computeClientBalance ?L' = computeClientBalance ?L" by blast
  with v e h2 m show ?thesis by simp
qed

text \<open>The decimal amounts 0.1, 0.2 and 0.3 as doubles, and their sums in both orders.\<close>

lemma rnd_tenth: "rnd (1 / 10) = Num (3602879701896397 / 36028797018963968)"
  using rnd_in_range [of "- 56" "1 / 10" 7205759403792794]
  by (simp add: roundHalfEven_def Let_def floor_numeral_quotient)

lemma rnd_fifth: "rnd (1 / 5) = Num (3602879701896397 / 18014398509481984)"
  using rnd_in_range [of "- 55" "1 / 5" 7205759403792794]
  by (simp add: roundHalfEven_def Let_def floor_numeral_quotient)

lemma rnd_three_tenths: "rnd (3 / 10) = Num (5404319552844595 / 18014398509481984)"
  using rnd_in_range [of "- 54" "3 / 10" 5404319552844595]
  by (simp add: roundHalfEven_def Let_def floor_numeral_quotient)

lemma rnd_tenth_again: "rnd (3602879701896397 / 36028797018963968) = Num (3602879701896397 / 36028797018963968)"
  using rnd_in_range [of "- 56" "3602879701896397 / 36028797018963968" 7205759403792794]
  by (simp add: roundHalfEven_def Let_def floor_numeral_quotient)

lemma rnd_three_tenths_again: "rnd (5404319552844595 / 18014398509481984) = Num (5404319552844595 / 18014398509481984)"
  using rnd_in_range [of "- 54" "5404319552844595 / 18014398509481984" 5404319552844595]
  by (simp add: roundHalfEven_def Let_def floor_numeral_quotient)

lemma rnd_tenth_fifth: "rnd (10808639105689191 / 36028797018963968) = Num (1351079888211149 / 4503599627370496)"
  using rnd_in_range [of "- 54" "10808639105689191 / 36028797018963968" 5404319552844596]
  by (simp add: roundHalfEven_def Let_def floor_numeral_quotient)

lemma rnd_tenth_fifth_three: "rnd (10808639105689191 / 18014398509481984) = Num (1351079888211149 / 2251799813685248)"
  using rnd_in_range [of "- 53" "10808639105689191 / 18014398509481984" 5404319552844596]
  by (simp add: roundHalfEven_def Let_def floor_numeral_quotient)

lemma rnd_three_fifth: "rnd (1 / 2) = Num (1 / 2)"
  using rnd_in_range [of "- 53" "1 / 2" 4503599627370496]
  by (simp add: roundHalfEven_def Let_def floor_numeral_quotient)

lemma rnd_three_fifth_tenth: "rnd (21617278211378381 / 36028797018963968) = Num (5404319552844595 / 9007199254740992)"
  using rnd_in_range [of "- 53" "21617278211378381 / 36028797018963968" 5404319552844595]
  by (simp add: roundHalfEven_def Let_def floor_numeral_quotient)

theorem computeClientBalance_order_counterexample:
  "mset [mkTransaction ''3'' (3 / 10), mkTransaction ''2'' (1 / 5), mkTransaction ''1'' (1 / 10)]
     = mset [mkTransaction ''1'' (1 / 10), mkTransaction ''2'' (1 / 5), mkTransaction ''3'' (3 / 10)]
   \<and> computeClientBalance
        [mkTransaction ''1'' (1 / 10), mkTransaction ''2'' (1 / 5), mkTransaction ''3'' (3 / 10)]
       = Num (1351079888211149 / 2251799813685248)
   \<and> computeClientBalance
        [mkTransaction ''3'' (3 / 10), mkTransaction ''2'' (1 / 5), mkTransaction ''1'' (1 / 10)]
       = Num (5404319552844595 / 9007199254740992)
   \<and> computeClientBalance
        [mkTransaction ''1'' (1 / 10), mkTransaction ''2'' (1 / 5), mkTransaction ''3'' (3 / 10)]
       \<noteq> computeClientBalance
        [mkTransaction ''3'' (3 / 10), mkTransaction ''2'' (1 / 5), mkTransaction ''1'' (1 / 10)]"
proof -
  let ?L = "[mkTransaction ''1'' (1 / 10), mkTransaction ''2'' (1 / 5), mkTransaction ''3'' (3 / 10)]"
  let ?L' = "[mkTransaction ''3'' (3 / 10), mkTransaction ''2'' (1 / 5), mkTransaction ''1'' (1 / 10)]"
  have m: "mset ?L' = mset ?L" by (simp add: add.commute)
  have a: "computeClientBalance ?L = Num (1351079888211149 / 2251799813685248)"
    by (simp add: computeClientBalance_def reduce_def zero_number_def lit_def
        rnd_tenth rnd_fifth rnd_three_tenths rnd_tenth_again rnd_tenth_fifth
        rnd_tenth_fifth_three)
  have b: "computeClientBalance ?L' = Num (5404319552844595 / 9007199254740992)"
    by (simp add: computeClientBalance_def reduce_def zero_number_def lit_def
        rnd_tenth rnd_fifth rnd_three_tenths rnd_three_tenths_again rnd_three_fifth
        rnd_three_fifth_tenth)
  from m a b show ?thesis by simp
qed

section \<open>Settlement, restore and payments\<close>

lemma updateDoc_set:
  "set (updateDoc i f db) = (\<lambda>d. if c_id d = i then f d else d) ` set db"
  by (simp add: updateDoc_def)

lemma list_ex_id_iff: "list_ex (\<lambda>c. c_id c = i) cs \<longleftrightarrow> i \<in> c_id ` set cs"
  by (auto simp: list_ex_iff)

lemma settleAndArchive_advance:
  assumes "user ev = Some uid" "0 < \<bar>computeClientBalance (transactions client)\<bar>"
    "c_id client \<in> c_id ` set (advanceClients st)"
  shows "settleAndArchive ev client st =
     st\<lparr>advanceClients := updateDoc (c_id client)
            (settled ev client (computeClientBalance (transactions client)) Advances)
            (advanceClients st)\<rparr>"
  using assms
  by (simp add: settleAndArchive_def confirmSettleAndArchive_def Let_def list_ex_id_iff
      writeCollection_def)

lemma settleAndArchive_work:
  assumes "user ev = Some uid" "0 < \<bar>computeClientBalance (transactions client)\<bar>"
    "c_id client \<notin> c_id ` set (advanceClients st)"
    "c_id client \<in> c_id ` set (workClients st)"
  shows "settleAndArchive ev client st =
     st\<lparr>workClients := updateDoc (c_id client)
            (settled ev client (computeClientBalance (transactions client)) Work)
            (workClients st)\<rparr>"
  using assms
  by (simp add: settleAndArchive_def confirmSettleAndArchive_def Let_def list_ex_id_iff
      writeCollection_def)

lemma settled_facts:
  "transactions (settled ev client B ar d) = transactions client @ [balancingTransaction ev B]"
  "c_isArchived (settled ev client B ar d) = Some True"
  "archiveType (settled ev client B ar d) = Some ar"
  "c_id (settled ev client B ar d) = c_id d"
  "amount (balancingTransaction ev B) = - B"
  by (simp_all add: settled_def balancingTransaction_def)

lemma updateDoc_hit:
  assumes "d' \<in> set (updateDoc i f db)" "c_id d' = i" "\<And>d. c_id (f d) = c_id d"
  shows "\<exists>d \<in> set db. c_id d = i \<and> d' = f d"
  using assms by (auto simp: updateDoc_set split: if_splits)

lemma updateDoc_ids:
  assumes "\<And>d. c_id (f d) = c_id d"
  shows "map c_id (updateDoc i f db) = map c_id db"
  using assms by (simp add: updateDoc_def)

text \<open>The button is offered for an infinite balance too, and for no other.\<close>

lemma settleAndArchive_not_offered:
  assumes "computeClientBalance (transactions client) = 0
           \<or> computeClientBalance (transactions client) = NaN"
  shows "settleAndArchive ev client st = st"
  using assms by (auto simp: settleAndArchive_def Let_def zero_number_def)



text \<open>
  The amounts 1000.1, 2000.2 and -3000.3: the doubles do not add up to zero, their computed
  balance is zero, and nothing is written.
\<close>

lemma rnd_1000_1: "rnd (10001 / 10) = Num (8796972631510221 / 8796093022208)"
  using rnd_in_range [of "- 43" "10001 / 10" 8796972631510221]
  by (simp add: roundHalfEven_def Let_def floor_numeral_quotient)

lemma rnd_2000_2: "rnd (10001 / 5) = Num (8796972631510221 / 4398046511104)"
  using rnd_in_range [of "- 42" "10001 / 5" 8796972631510221]
  by (simp add: roundHalfEven_def Let_def floor_numeral_quotient)

lemma rnd_3000_3_neg: "rnd (- (30003 / 10)) = Num (- (3298864736816333 / 1099511627776))"
  using rnd_in_range [of "- 41" "- (30003 / 10)" "- 6597729473632666"]
  by (simp add: roundHalfEven_def Let_def floor_numeral_quotient)

lemma rnd_1000_1_again: "rnd (8796972631510221 / 8796093022208) = Num (8796972631510221 / 8796093022208)"
  using rnd_in_range [of "- 43" "8796972631510221 / 8796093022208" 8796972631510221]
  by (simp add: roundHalfEven_def Let_def floor_numeral_quotient)

lemma rnd_3000_3_sum: "rnd (26390917894530663 / 8796093022208) = Num (3298864736816333 / 1099511627776)"
  using rnd_in_range [of "- 41" "26390917894530663 / 8796093022208" 6597729473632666]
  by (simp add: roundHalfEven_def Let_def floor_numeral_quotient)

lemma exRounded_balance:
  "exactSum amount exRounded = - (1 / 8796093022208) \<and> computeClientBalance exRounded = 0"
  by (simp add: exRounded_def exactSum_def exact_def computeClientBalance_def reduce_def
      zero_number_def lit_def rnd_1000_1 rnd_2000_2 rnd_3000_3_neg rnd_1000_1_again
      rnd_3000_3_sum)

lemma settleAndArchive_rounded_to_zero:
  "settleAndArchive ev (mkClient ''c1'' ''Ahmed'' exRounded) st = st"
  by (rule settleAndArchive_not_offered) (simp add: exRounded_balance)

text \<open>Two amounts of \<open>2 ^ 1023\<close>: their sum is beyond the largest double.\<close>

lemma rnd_huge: "rnd (2 ^ 1023) = Num (2 ^ 1023)"
  using rnd_in_range [of 971 "2 ^ 1023" "2 ^ 52"]
  by simp

lemma exHuge_balance: "computeClientBalance exHuge = PosInf"
proof -
  have "rnd (2 ^ 1023 + 2 ^ 1023) = PosInf"
    by (rule rnd_overflow) simp
  then show ?thesis
    by (simp add: exHuge_def computeClientBalance_def reduce_def zero_number_def lit_def
        rnd_huge del: power_numeral)
qed


lemma restored_facts:
  "c_isArchived (restored d) = Some False"
  "archiveType (restored d) = None"
  "transactions (restored d) = transactions d"
  "c_id (restored d) = c_id d"
  by (simp_all add: restored_def)

lemma confirmRestoreClient_collection:
  assumes "user ev = Some uid"
    and "c_id client \<in> c_id ` set (collectionOf ty st)"
    and "ty = WorkType \<longrightarrow> c_id client \<notin> c_id ` set (advanceClients st)"
  shows "confirmRestoreClient ev (Some client) st
         = writeCollection ty (updateDoc (c_id client) restored) st"
  using assms
  by (cases ty)
     (simp_all add: confirmRestoreClient_def Let_def list_ex_id_iff collectionOf_def)

lemma collectionOf_writeCollection:
  "collectionOf ty (writeCollection ty w st) = w (collectionOf ty st)"
  by (cases ty) (simp_all add: collectionOf_def writeCollection_def)

lemma collectionOf_writeCollection_other:
  "ty' \<noteq> ty \<Longrightarrow> collectionOf ty' (writeCollection ty w st) = collectionOf ty' st"
  by (cases ty; cases ty') (simp_all add: collectionOf_def writeCollection_def)

text \<open>
  C9. Restoring a client sets \<open>isArchived\<close> to false and removes the field \<open>archiveType\<close>
  (it is absent afterwards) in the document of that client, and changes nothing else: no
  transaction list of the collection is touched.
\<close>

theorem restoreClient_clears_archive_fields:
  assumes u: "user ev \<noteq> None"
    and i: "c_id client \<in> c_id ` set (collectionOf ty st)"
    and w: "ty = WorkType \<longrightarrow> c_id client \<notin> c_id ` set (advanceClients st)"
  shows "collectionOf ty (confirmRestoreClient ev (Some client) st)
           = map (\<lambda>d. if c_id d = c_id client
                      then d\<lparr>c_isArchived := Some False, archiveType := None\<rparr> else d)
               (collectionOf ty st)
    \<and> (\<forall>d \<in> set (collectionOf ty (confirmRestoreClient ev (Some client) st)).
          c_id d = c_id client \<longrightarrow> c_isArchived d = Some False \<and> archiveType d = None)
    \<and> map transactions (collectionOf ty (confirmRestoreClient ev (Some client) st))
         = map transactions (collectionOf ty st)"
proof -
  obtain uid where uid: "user ev = Some uid" using u by auto
  let ?st' = "confirmRestoreClient ev (Some client) st"
  have eq: "collectionOf ty ?st' = updateDoc (c_id client) restored (collectionOf ty st)"
    by (simp add: confirmRestoreClient_collection [OF uid i w] collectionOf_writeCollection)
  have a: "collectionOf ty ?st'
           = map (\<lambda>d. if c_id d = c_id client
                      then d\<lparr>c_isArchived := Some False, archiveType := None\<rparr> else d)
               (collectionOf ty st)"
    by (simp add: eq updateDoc_def restored_def)
  have b: "c_isArchived d = Some False \<and> archiveType d = None"
    if "d \<in> set (collectionOf ty ?st')" "c_id d = c_id client" for d
  proof -
    from that obtain d0 where "d = restored d0"
      using updateDoc_hit [of d "c_id client" restored "collectionOf ty st"]
      by (auto simp: eq restored_facts)
    then show ?thesis by (simp add: restored_facts)
  qed
  have c: "map transactions (collectionOf ty ?st') = map transactions (collectionOf ty st)"
    by (simp add: eq updateDoc_def restored_facts)
  from a b c show ?thesis by blast
qed

theorem restoreClient_clears_archive_fields_witness:
  "user exEnv \<noteq> None
   \<and> c_id exArchived \<in> c_id ` set (collectionOf Advance \<lparr>advanceClients = [exArchived], workClients = []\<rparr>)
   \<and> advanceClients (confirmRestoreClient exEnv (Some exArchived)
                        \<lparr>advanceClients = [exArchived], workClients = []\<rparr>)
      = [(mkClient ''c1'' ''Ahmed'' exLedger)\<lparr>c_isArchived := Some False\<rparr>]"
proof -
  let ?st = "\<lparr>advanceClients = [exArchived], workClients = []\<rparr>"
  have h1: "user exEnv \<noteq> None" by (simp add: exEnv_def)
  have h2: "c_id exArchived \<in> c_id ` set (collectionOf Advance ?st)"
    by (simp add: collectionOf_def)
  have h3: "Advance = WorkType \<longrightarrow> c_id exArchived \<notin> c_id ` set (advanceClients ?st)"
    by simp
  from restoreClient_clears_archive_fields [OF h1 h2 h3]
  have "advanceClients (confirmRestoreClient exEnv (Some exArchived) ?st)
        = [(mkClient ''c1'' ''Ahmed'' exLedger)\<lparr>c_isArchived := Some False\<rparr>]"
    by (simp add: collectionOf_def exArchived_def mkClient_def)
  with h1 h2 show ?thesis by simp
qed

lemma markLinked_append_settled:
  "isSettled t \<Longrightarrow> markLinked link (ts @ [t]) = markLinked link ts @ [t]"
  by (simp add: markLinked_def split: option.splits)

lemma markLinked_amounts: "map amount (markLinked link ts) = map amount ts"
  by (simp add: markLinked_def split: option.splits)

lemma paymentTransaction_facts:
  "amount (paymentTransaction ev pd) = - \<bar>orZero (p_amount pd)\<bar>"
  "isSettled (paymentTransaction ev pd)"
  by (simp_all add: paymentTransaction_def)

lemma abs_orZero_uminus: "\<bar>orZero (- x)\<bar> = \<bar>orZero x\<bar>"
  by (cases x) simp_all

lemma paymentTransaction_negated:
  "paymentTransaction ev (pd\<lparr>p_amount := - p_amount pd\<rparr>) = paymentTransaction ev pd"
  by (simp add: paymentTransaction_def abs_orZero_uminus)

lemma paid_facts:
  "transactions (paid ev pd client d)
     = markLinked (linkedTransactionId pd) (transactions client) @ [paymentTransaction ev pd]"
  "c_id (paid ev pd client d) = c_id d"
  by (simp_all add: paid_def markLinked_append_settled paymentTransaction_facts)

lemma addPayment_collection:
  assumes "user ev = Some uid"
    and "find (\<lambda>c. c_id c = clientId) (collectionOf ty st) = Some client"
  shows "addPayment ev pd clientId ty st
         = writeCollection ty (updateDoc clientId (paid ev pd client)) st"
  using assms by (simp add: addPayment_def)

text \<open>
  C8. A payment appends one transaction whose amount is \<open>- \<bar>amount || 0\<bar>\<close>, which is
  \<open>- \<bar>amount\<bar>\<close> for every amount other than NaN, and which is settled; the amounts of
  the other transactions stay as they were; and a payment entered with the opposite sign
  gives the same result.
\<close>

theorem addPayment_normalizes_sign:
  assumes u: "user ev \<noteq> None"
    and c: "find (\<lambda>c. c_id c = clientId) (collectionOf ty st) = Some client"
  shows "(\<exists>d \<in> set (collectionOf ty (addPayment ev pd clientId ty st)). c_id d = clientId)
    \<and> (\<forall>d \<in> set (collectionOf ty (addPayment ev pd clientId ty st)). c_id d = clientId \<longrightarrow>
          transactions d
            = markLinked (linkedTransactionId pd) (transactions client) @ [paymentTransaction ev pd]
          \<and> map amount (transactions d)
              = map amount (transactions client) @ [- \<bar>orZero (p_amount pd)\<bar>])
    \<and> amount (paymentTransaction ev pd) = - \<bar>orZero (p_amount pd)\<bar>
    \<and> (p_amount pd \<noteq> NaN \<longrightarrow> amount (paymentTransaction ev pd) = - \<bar>p_amount pd\<bar>)
    \<and> isSettled (paymentTransaction ev pd)
    \<and> addPayment ev (pd\<lparr>p_amount := - p_amount pd\<rparr>) clientId ty st
        = addPayment ev pd clientId ty st"
proof -
  obtain uid where uid: "user ev = Some uid" using u by auto
  let ?st' = "addPayment ev pd clientId ty st"
  have eq: "collectionOf ty ?st' = updateDoc clientId (paid ev pd client) (collectionOf ty st)"
    by (simp add: addPayment_collection [OF uid c] collectionOf_writeCollection)
  from c have cin: "client \<in> set (collectionOf ty st)" "c_id client = clientId"
    by (auto simp: find_Some_iff)
  have ex: "\<exists>d \<in> set (collectionOf ty ?st'). c_id d = clientId"
  proof -
    have "clientId \<in> set (map c_id (collectionOf ty ?st'))"
      using cin by (auto simp: eq updateDoc_ids paid_facts)
    then show ?thesis by auto
  qed
  have all: "transactions d
            = markLinked (linkedTransactionId pd) (transactions client) @ [paymentTransaction ev pd]
          \<and> map amount (transactions d)
              = map amount (transactions client) @ [- \<bar>orZero (p_amount pd)\<bar>]"
    if "d \<in> set (collectionOf ty ?st')" "c_id d = clientId" for d
  proof -
    from that obtain d0 where "d = paid ev pd client d0"
      using updateDoc_hit [of d clientId "paid ev pd client" "collectionOf ty st"]
      by (auto simp: eq paid_facts)
    then show ?thesis
      by (simp add: paid_facts markLinked_amounts paymentTransaction_facts)
  qed
  have neg: "addPayment ev (pd\<lparr>p_amount := - p_amount pd\<rparr>) clientId ty st = ?st'"
  proof -
    have "paid ev (pd\<lparr>p_amount := - p_amount pd\<rparr>) cl = paid ev pd cl" for cl
      by (rule ext) (simp add: paid_def paymentTransaction_negated)
    then show ?thesis by (simp add: addPayment_def split: option.splits)
  qed
  have num: "p_amount pd \<noteq> NaN \<longrightarrow> amount (paymentTransaction ev pd) = - \<bar>p_amount pd\<bar>"
    by (simp add: paymentTransaction_facts orZero_number)
  from ex all neg num paymentTransaction_facts [of ev pd] show ?thesis by blast
qed

theorem addPayment_normalizes_sign_witness:
  "user exEnv \<noteq> None
   \<and> find (\<lambda>c. c_id c = ''c1'') (collectionOf Advance exStore)
       = Some (mkClient ''c1'' ''Ahmed'' exLedger)
   \<and> map (\<lambda>d. map amount (transactions d))
        (advanceClients (addPayment exEnv exPayment ''c1'' Advance exStore))
      = [[Num 500, Num (- 200), Num (- 300)]]
   \<and> map (\<lambda>d. map amount (transactions d))
        (advanceClients
           (addPayment exEnv (exPayment\<lparr>p_amount := lit (- 300)\<rparr>) ''c1'' Advance exStore))
      = [[Num 500, Num (- 200), Num (- 300)]]"
proof -
  let ?c = "mkClient ''c1'' ''Ahmed'' exLedger"
  have h1: "user exEnv \<noteq> None" by (simp add: exEnv_def)
  have h2: "find (\<lambda>c. c_id c = ''c1'') (collectionOf Advance exStore) = Some ?c"
    by (simp add: collectionOf_def exStore_def mkClient_def)
  note t = addPayment_normalizes_sign [OF h1 h2, of exPayment]
  have r: "advanceClients (addPayment exEnv exPayment ''c1'' Advance exStore)
           = [paid exEnv exPayment ?c ?c]"
    by (simp add: addPayment_def exEnv_def collectionOf_def exStore_def mkClient_def
        writeCollection_def updateDoc_def)
  have "map amount (transactions (paid exEnv exPayment ?c ?c))
          = map amount (transactions ?c) @ [- \<bar>orZero (p_amount exPayment)\<bar>]"
    using t by (simp add: r collectionOf_def paid_facts)
  then have a: "map amount (transactions (paid exEnv exPayment ?c ?c))
                = [Num 500, Num (- 200), Num (- 300)]"
    by (simp add: exLedger_def exPayment_def)
  have n: "exPayment\<lparr>p_amount := lit (- 300)\<rparr> = exPayment\<lparr>p_amount := - p_amount exPayment\<rparr>"
    by (simp add: exPayment_def)
  have b: "addPayment exEnv (exPayment\<lparr>p_amount := lit (- 300)\<rparr>) ''c1'' Advance exStore
           = addPayment exEnv exPayment ''c1'' Advance exStore"
    using t unfolding n by blast
  show ?thesis using h1 h2 a b by (simp add: r)
qed

section \<open>Commission reconciliation: the loop\<close>

lemma findIndex_None_iff: "findIndex p xs = None \<longleftrightarrow> (\<forall>x \<in> set xs. \<not> p x)"
  by (induction xs) auto

lemma findIndex_Some:
  "findIndex p xs = Some i \<Longrightarrow> i < length xs \<and> p (xs ! i) \<and> (\<forall>j < i. \<not> p (xs ! j))"
proof (induction xs arbitrary: i)
  case Nil
  then show ?case by simp
next
  case (Cons x xs)
  show ?case
  proof (cases "p x")
    case True
    with Cons.prems show ?thesis by simp
  next
    case False
    with Cons.prems obtain k where k: "findIndex p xs = Some k" "i = Suc k"
      by auto
    from Cons.IH [OF k(1)] False k(2) show ?thesis
      by (auto simp: nth_Cons split: nat.splits)
  qed
qed

lemma holds_iff: "holds E c \<longleftrightarrow> findIndex (ofEntity E) (transactions c) \<noteq> None"
  by (simp add: holds_def findIndex_None_iff list_ex_iff)

lemma stripped_not_holds: "\<not> holds E c \<Longrightarrow> stripped E c c = c"
  by (simp add: stripped_def holds_def list_ex_iff)

lemma updateDoc_append:
  "updateDoc i f (xs @ ys) = updateDoc i f xs @ updateDoc i f ys"
  by (simp add: updateDoc_def)

lemma updateDoc_absent: "i \<notin> c_id ` set db \<Longrightarrow> updateDoc i f db = db"
  by (induction db) (auto simp: updateDoc_def)

lemma updateDoc_here:
  assumes "distinct (map c_id (pre @ c # post))"
  shows "updateDoc (c_id c) f (pre @ c # post) = pre @ f c # post"
proof -
  from assms have "c_id c \<notin> c_id ` set pre" "c_id c \<notin> c_id ` set post"
    by auto
  then have "updateDoc (c_id c) f pre = pre" "updateDoc (c_id c) f post = post"
    by (simp_all add: updateDoc_absent)
  then show ?thesis
    by (simp add: updateDoc_append) (simp add: updateDoc_def)
qed

lemma written_ids [simp]:
  "c_id (stripped E c d) = c_id d"
  "c_id (refreshed ev E c i d) = c_id d"
  "c_id (credited ev E c d) = c_id d"
  by (simp_all add: stripped_def refreshed_def credited_def)

lemma written_names [simp]:
  "c_name (stripped E c d) = c_name d"
  "c_name (refreshed ev E c i d) = c_name d"
  "c_name (credited ev E c d) = c_name d"
  by (simp_all add: stripped_def refreshed_def credited_def)

lemma scanClients_scanned:
  "distinct (map c_id (pre @ cs)) \<Longrightarrow>
   scanClients ev E cs (pre @ cs) = (list_ex (target E) cs, pre @ scanned ev E cs)"
proof (induction cs arbitrary: pre)
  case Nil
  show ?case by simp
next
  case (Cons c cs)
  show ?case
  proof (cases "findIndex (ofEntity E) (transactions c)")
    case None
    then have nh: "\<not> holds E c" by (simp add: holds_iff)
    from Cons.prems have "distinct (map c_id ((pre @ [c]) @ cs))" by simp
    from Cons.IH [OF this] None nh show ?thesis
      by (simp add: target_def stripped_not_holds strip_def)
  next
    case (Some i)
    then have h: "holds E c" by (simp add: holds_iff)
    show ?thesis
    proof (cases "Some (c_name c) = buyerName E")
      case True
      with h have t: "target E c" by (simp add: target_def)
      from Some True t show ?thesis
        by (simp add: updateDoc_here [OF Cons.prems] caseA_def)
    next
      case False
      then have t: "\<not> target E c" by (simp add: target_def)
      have "distinct (map c_id ((pre @ [stripped E c c]) @ cs))"
        using Cons.prems by simp
      from Cons.IH [OF this] Some False t show ?thesis
        by (simp add: updateDoc_here [OF Cons.prems] strip_def)
    qed
  qed
qed

lemma scanned_no_target:
  "\<not> list_ex (target E) cs \<Longrightarrow> scanned ev E cs = map (strip E) cs"
  by (induction cs) (simp_all add: strip_def)

lemma scanned_split:
  "list_ex (target E) cs \<Longrightarrow>
   \<exists>pre c post. cs = pre @ c # post \<and> (\<forall>p \<in> set pre. \<not> target E p) \<and> target E c
      \<and> scanned ev E cs = map (strip E) pre @ caseA ev E c # post"
proof (induction cs)
  case Nil
  then show ?case by simp
next
  case (Cons x xs)
  show ?case
  proof (cases "target E x")
    case True
    then have "x # xs = [] @ x # xs \<and> (\<forall>p \<in> set []. \<not> target E p) \<and> target E x
      \<and> scanned ev E (x # xs) = map (strip E) [] @ caseA ev E x # xs"
      by simp
    then show ?thesis by blast
  next
    case False
    with Cons.prems have "list_ex (target E) xs" by simp
    from Cons.IH [OF this] obtain pre c post where
      *: "xs = pre @ c # post" "\<forall>p \<in> set pre. \<not> target E p" "target E c"
         "scanned ev E xs = map (strip E) pre @ caseA ev E c # post"
      by blast
    from * False have "x # xs = (x # pre) @ c # post \<and> (\<forall>p \<in> set (x # pre). \<not> target E p)
       \<and> target E c
       \<and> scanned ev E (x # xs) = map (strip E) (x # pre) @ caseA ev E c # post"
      by (simp add: strip_def)
    then show ?thesis by blast
  qed
qed

lemma syncBuyerCommission_found:
  assumes "user ev = Some uid" "distinct (map c_id cs)" "list_ex (target E) cs"
  shows "syncBuyerCommission ev E cs = scanned ev E cs"
  using assms scanClients_scanned [of "[]" cs ev E]
  by (simp add: syncBuyerCommission_def)

lemma syncBuyerCommission_not_found:
  assumes "user ev = Some uid" "distinct (map c_id cs)" "\<not> list_ex (target E) cs"
  shows "syncBuyerCommission ev E cs =
     (case buyerName E of
        None \<Rightarrow> map (strip E) cs
      | Some bn \<Rightarrow>
          if commission E > 0 \<and> bn \<noteq> [] then
            (case find (\<lambda>c. c_name c = bn) cs of
               Some buyerClient \<Rightarrow>
                 updateDoc (c_id buyerClient) (credited ev E buyerClient) (map (strip E) cs)
             | None \<Rightarrow> map (strip E) cs @ [newBuyer ev E uid bn])
          else map (strip E) cs)"
  using assms scanClients_scanned [of "[]" cs ev E]
  by (simp add: syncBuyerCommission_def scanned_no_target split: option.splits)

lemma commissionCount_simps [simp]:
  "commissionCount E [] = 0"
  "commissionCount E (c # cs) = ownCount E c + commissionCount E cs"
  "commissionCount E (xs @ ys) = commissionCount E xs + commissionCount E ys"
  by (simp_all add: commissionCount_def ownCount_def)

lemma holds_ownCount: "holds E c \<longleftrightarrow> 0 < ownCount E c"
proof -
  have "filter (ofEntity E) (transactions c) \<noteq> [] \<longleftrightarrow> (\<exists>t \<in> set (transactions c). ofEntity E t)"
    by (simp add: filter_empty_conv)
  then show ?thesis
    by (simp add: holds_def ownCount_def list_ex_iff)
qed

lemma commissionCount_zero_iff:
  "commissionCount E cs = 0 \<longleftrightarrow> (\<forall>c \<in> set cs. \<not> holds E c)"
  by (induction cs) (simp_all add: holds_ownCount)

lemma strip_facts [simp]:
  "c_id (strip E c) = c_id c"
  "c_name (strip E c) = c_name c"
  "ownCount E (strip E c) = 0"
  "\<not> holds E (strip E c)"
  by (simp_all add: strip_def stripped_def ownCount_def holds_def list_ex_iff)

lemma commissionCount_map_strip [simp]: "commissionCount E (map (strip E) cs) = 0"
  by (simp add: commissionCount_zero_iff)

lemma strip_explicit:
  "strip E c = c\<lparr>transactions := filter (\<lambda>t. entityId t \<noteq> Some (e_id E)) (transactions c)\<rparr>"
  by (simp add: strip_def stripped_def ofEntity_def)

text \<open>
  C10. When the buyer name of an entity is missing or empty and no client bears that empty
  name, reconciliation creates nothing and removes every transaction of the entity from
  every client: afterwards no client holds one.
\<close>

theorem empty_buyer_strips_all:
  assumes u: "user ev \<noteq> None"
    and d: "distinct (map c_id cs)"
    and b: "buyerName E = None \<or> buyerName E = Some []"
    and n: "\<forall>c \<in> set cs. Some (c_name c) \<noteq> buyerName E"
  shows "syncBuyerCommission ev E cs
           = map (\<lambda>c. c\<lparr>transactions :=
                          filter (\<lambda>t. entityId t \<noteq> Some (e_id E)) (transactions c)\<rparr>) cs
    \<and> (\<forall>c \<in> set (syncBuyerCommission ev E cs).
          \<forall>t \<in> set (transactions c). entityId t \<noteq> Some (e_id E))
    \<and> commissionCount E (syncBuyerCommission ev E cs) = 0"
proof -
  obtain uid where uid: "user ev = Some uid" using u by auto
  from n have nt: "\<not> list_ex (target E) cs"
    by (simp add: list_ex_iff target_def)
  have eq: "syncBuyerCommission ev E cs = map (strip E) cs"
    using b by (auto simp: syncBuyerCommission_not_found [OF uid d nt])
  have a: "syncBuyerCommission ev E cs
        = map (\<lambda>c. c\<lparr>transactions :=
                          filter (\<lambda>t. entityId t \<noteq> Some (e_id E)) (transactions c)\<rparr>) cs"
    by (simp add: eq strip_explicit)
  have b: "\<forall>c \<in> set (syncBuyerCommission ev E cs).
             \<forall>t \<in> set (transactions c). entityId t \<noteq> Some (e_id E)"
    by (simp add: eq strip_explicit)
  have c: "commissionCount E (syncBuyerCommission ev E cs) = 0"
    by (simp add: eq)
  from a b c show ?thesis by blast
qed


lemma ids_map_strip [simp]: "map c_id (map (strip E) cs) = map c_id cs"
  by simp

lemma filter_length_update:
  assumes "i < length xs" "p (xs ! i)" "p y"
  shows "length (filter p (xs[i := y])) = length (filter p xs)"
proof -
  have "map p (xs[i := y]) = map p xs"
    using assms by (simp add: map_update list_update_same_conv)
  moreover have "length (filter p zs) = length (filter id (map p zs))" for zs :: "'a list"
    by (simp add: filter_map comp_def)
  ultimately show ?thesis by metis
qed

lemma ofEntity_refresh [simp]:
  "ofEntity E (t\<lparr>amount := a, date := d, t_notes := n, isSettled := s\<rparr>) = ofEntity E t"
  by (simp add: ofEntity_def)

lemma caseA_facts:
  "c_id (caseA ev E c) = c_id c"
  "c_name (caseA ev E c) = c_name c"
  "ownCount E (caseA ev E c) \<le> ownCount E c"
proof -
  show "c_id (caseA ev E c) = c_id c" "c_name (caseA ev E c) = c_name c"
    by (simp_all add: caseA_def split: option.splits)
  show "ownCount E (caseA ev E c) \<le> ownCount E c"
  proof (cases "findIndex (ofEntity E) (transactions c)")
    case None
    then show ?thesis by (simp add: caseA_def)
  next
    case (Some i)
    from findIndex_Some [OF Some] have i: "i < length (transactions c)"
      "ofEntity E (transactions c ! i)" by simp_all
    show ?thesis
      using Some i
      by (simp add: caseA_def ownCount_def refreshed_def stripped_def filter_length_update)
  qed
qed

lemma caseA_removes:
  "\<not> commission E > 0 \<Longrightarrow> caseA ev E c = strip E c"
  by (simp add: caseA_def strip_def stripped_def holds_def list_ex_iff
      findIndex_None_iff filter_id_conv split: option.splits)

lemma caseA_refreshes:
  assumes "commission E > 0" "holds E c"
  shows "\<exists>t \<in> set (transactions (caseA ev E c)). entityId t = Some (e_id E) \<and> amount t = - commission E"
proof -
  from assms(2) obtain i where i: "findIndex (ofEntity E) (transactions c) = Some i"
    by (auto simp: holds_iff)
  from findIndex_Some [OF i] have l: "i < length (transactions c)"
    and e: "ofEntity E (transactions c ! i)" by simp_all
  let ?t = "(transactions c ! i)\<lparr>amount := - commission E, date := commissionDate ev E,
                t_notes := CommissionNote (auctionDate E), isSettled := True\<rparr>"
  have "transactions (caseA ev E c) = (transactions c)[i := ?t]"
    using assms(1) i by (simp add: caseA_def refreshed_def)
  then have "?t \<in> set (transactions (caseA ev E c))"
    using l by (simp add: set_update_memI)
  moreover have "entityId ?t = Some (e_id E) \<and> amount ?t = - commission E"
    using e by (simp add: ofEntity_def)
  ultimately show ?thesis by blast
qed

lemma newTransaction_facts [simp]:
  "ofEntity E (newTransaction ev E)"
  "entityId (newTransaction ev E) = Some (e_id E)"
  "amount (newTransaction ev E) = - commission E"
  by (simp_all add: newTransaction_def ofEntity_def)

lemma credited_count: "ownCount E (credited ev E b d) = Suc (ownCount E b)"
  by (simp add: credited_def ownCount_def)

lemma newBuyer_facts [simp]:
  "c_id (newBuyer ev E uid bn) = autoId ev"
  "c_name (newBuyer ev E uid bn) = bn"
  "transactions (newBuyer ev E uid bn) = [newTransaction ev E]"
  "ownCount E (newBuyer ev E uid bn) = 1"
  by (simp_all add: newBuyer_def ownCount_def)

lemma credit_split:
  assumes d: "distinct (map c_id cs)" and f: "find (\<lambda>c. c_name c = bn) cs = Some b"
  shows "\<exists>pre post. cs = pre @ b # post \<and> c_name b = bn
     \<and> updateDoc (c_id b) (credited ev E b) (map (strip E) cs)
        = map (strip E) pre @ credited ev E b (strip E b) # map (strip E) post"
proof -
  from f have "b \<in> set cs" "c_name b = bn" by (auto simp: find_Some_iff)
  then obtain pre post where s: "cs = pre @ b # post" by (auto dest: split_list)
  have "distinct (map c_id (map (strip E) pre @ strip E b # map (strip E) post))"
    using d s by (simp add: comp_def)
  from updateDoc_here [OF this, of "credited ev E b"] s \<open>c_name b = bn\<close>
  show ?thesis by auto
qed


lemma not_holds_count: "\<not> holds E c \<Longrightarrow> ownCount E c = 0"
  by (simp add: holds_ownCount)

lemma target_holds: "target E c \<Longrightarrow> holds E c \<and> Some (c_name c) = buyerName E"
  by (simp add: target_def)

text \<open>
  C1. At most one commission. When the clients hold at most one transaction of the entity
  before reconciliation, they hold at most one afterwards, and a client that holds it bears
  the buyer's name.
\<close>

theorem at_most_one_commission:
  assumes u: "user ev \<noteq> None"
    and d: "distinct (map c_id cs)"
    and inv: "commissionCount E cs \<le> 1"
  shows "commissionCount E (syncBuyerCommission ev E cs) \<le> 1
    \<and> (\<forall>c \<in> set (syncBuyerCommission ev E cs). holds E c \<longrightarrow> Some (c_name c) = buyerName E)"
proof -
  obtain uid where uid: "user ev = Some uid" using u by auto
  let ?R = "syncBuyerCommission ev E cs"
  let ?goal = "\<lambda>R. commissionCount E R \<le> 1
      \<and> (\<forall>c \<in> set R. holds E c \<longrightarrow> Some (c_name c) = buyerName E)"
  have stripped_ok: "?goal (map (strip E) cs)"
    by simp
  show ?thesis
  proof (cases "list_ex (target E) cs")
    case True
    from scanned_split [OF True, of ev] obtain pre c post where
      s: "cs = pre @ c # post" and t: "target E c"
      and r: "scanned ev E cs = map (strip E) pre @ caseA ev E c # post"
      by blast
    have R: "?R = map (strip E) pre @ caseA ev E c # post"
      by (simp add: syncBuyerCommission_found [OF uid d True] r)
    from t have "0 < ownCount E c" by (simp add: target_def holds_ownCount)
    with inv s have post0: "commissionCount E post = 0" and c1: "ownCount E c \<le> 1"
      by simp_all
    from c1 caseA_facts(3) [where E = E and ev = ev and c = c] have "ownCount E (caseA ev E c) \<le> 1"
      by linarith
    then have a: "commissionCount E ?R \<le> 1"
      by (simp add: R post0)
    have b: "Some (c_name x) = buyerName E" if "x \<in> set ?R" "holds E x" for x
    proof -
      from that(1) consider "x \<in> set (map (strip E) pre)" | "x = caseA ev E c" | "x \<in> set post"
        by (auto simp: R)
      then show ?thesis
      proof cases
        case 1
        with that(2) show ?thesis by auto
      next
        case 2
        with t show ?thesis by (simp add: caseA_facts target_def)
      next
        case 3
        with post0 that(2) show ?thesis by (simp add: commissionCount_zero_iff)
      qed
    qed
    from a b show ?thesis by blast
  next
    case False
    note nf = syncBuyerCommission_not_found [OF uid d False]
    show ?thesis
    proof (cases "buyerName E")
      case None
      with nf stripped_ok show ?thesis by simp
    next
      case (Some bn)
      show ?thesis
      proof (cases "commission E > 0 \<and> bn \<noteq> []")
        case invalid: False
        with nf Some stripped_ok show ?thesis by auto
      next
        case valid: True
        show ?thesis
        proof (cases "find (\<lambda>c. c_name c = bn) cs")
          case None
          with nf Some valid have R: "?R = map (strip E) cs @ [newBuyer ev E uid bn]"
            by simp
          have "commissionCount E ?R \<le> 1" by (simp add: R)
          moreover have "\<forall>c \<in> set ?R. holds E c \<longrightarrow> Some (c_name c) = buyerName E"
            by (auto simp: R Some)
          ultimately show ?thesis by blast
        next
          case (Some b)
          from credit_split [OF d Some, of ev E] obtain pre post where
            s: "cs = pre @ b # post" and n: "c_name b = bn"
            and w: "updateDoc (c_id b) (credited ev E b) (map (strip E) cs)
              = map (strip E) pre @ credited ev E b (strip E b) # map (strip E) post"
            by blast
          from nf \<open>buyerName E = Some bn\<close> valid Some w
          have R: "?R = map (strip E) pre @ credited ev E b (strip E b) # map (strip E) post"
            by simp
          from False s have "\<not> target E b" by (simp add: list_ex_iff)
          with n \<open>buyerName E = Some bn\<close> have "\<not> holds E b" by (simp add: target_def)
          then have "ownCount E (credited ev E b (strip E b)) = 1"
            by (simp add: credited_count not_holds_count)
          then have a: "commissionCount E ?R \<le> 1" by (simp add: R)
          have b: "\<forall>c \<in> set ?R. holds E c \<longrightarrow> Some (c_name c) = buyerName E"
            using n \<open>buyerName E = Some bn\<close> by (auto simp: R)
          from a b show ?thesis by blast
        qed
      qed
    qed
  qed
qed


lemma syncBuyerCommission_creates:
  assumes uid: "user ev = Some uid" and d: "distinct (map c_id cs)"
    and nt: "\<not> list_ex (target E) cs"
    and bn: "buyerName E = Some bn" "bn \<noteq> []" and pos: "commission E > 0"
  shows "(\<exists>b pre post. find (\<lambda>c. c_name c = bn) cs = Some b \<and> cs = pre @ b # post
            \<and> c_name b = bn \<and> \<not> holds E b
            \<and> syncBuyerCommission ev E cs
               = map (strip E) pre @ credited ev E b (strip E b) # map (strip E) post)
       \<or> (find (\<lambda>c. c_name c = bn) cs = None
            \<and> syncBuyerCommission ev E cs = map (strip E) cs @ [newBuyer ev E uid bn])"
proof (cases "find (\<lambda>c. c_name c = bn) cs")
  case None
  with syncBuyerCommission_not_found [OF uid d nt] bn pos show ?thesis by simp
next
  case (Some b)
  from credit_split [OF d Some, of ev E] obtain pre post where
    s: "cs = pre @ b # post" and n: "c_name b = bn"
    and w: "updateDoc (c_id b) (credited ev E b) (map (strip E) cs)
              = map (strip E) pre @ credited ev E b (strip E b) # map (strip E) post"
    by blast
  from syncBuyerCommission_not_found [OF uid d nt] bn pos Some w
  have R: "syncBuyerCommission ev E cs
           = map (strip E) pre @ credited ev E b (strip E b) # map (strip E) post"
    by simp
  from nt s have "\<not> target E b" by (simp add: list_ex_iff)
  with n bn have "\<not> holds E b" by (simp add: target_def)
  with Some s n R show ?thesis by blast
qed

lemma credited_facts [simp]:
  "transactions (credited ev E b d) = transactions b @ [newTransaction ev E]"
  by (simp add: credited_def)

text \<open>The rate 0.005 as a double.\<close>

lemma rnd_rate: "rnd (1 / 200) = Num (5764607523034235 / 1152921504606846976)"
  using rnd_in_range [of "- 60" "1 / 200" 5764607523034235]
  by (simp add: roundHalfEven_def Let_def floor_numeral_quotient)

lemma rnd_rate_35: "rnd (201761263306198225 / 1152921504606846976) = Num (6305039478318695 / 36028797018963968)"
  using rnd_in_range [of "- 55" "201761263306198225 / 1152921504606846976" 6305039478318695]
  by (simp add: roundHalfEven_def Let_def floor_numeral_quotient)

lemma rnd_rate_3500: "rnd (5044031582654955625 / 288230376151711744) = Num (35 / 2)"
  using rnd_in_range [of "- 48" "5044031582654955625 / 288230376151711744" 4925812092436480]
  by (simp add: roundHalfEven_def Let_def floor_numeral_quotient)

lemma rnd_exact_rate_35: "rnd (7 / 40) = Num (3152519739159347 / 18014398509481984)"
  using rnd_in_range [of "- 55" "7 / 40" 6305039478318694]
  by (simp add: roundHalfEven_def Let_def floor_numeral_quotient)

lemma lit_rate:
  "lit (5 / 1000) = Num (5764607523034235 / 1152921504606846976)"
  "lit (1 / 200) = Num (5764607523034235 / 1152921504606846976)"
  by (simp_all add: lit_def rnd_rate)

lemma commission_product:
  "commission E
     = reduce (\<lambda>sum l. sum + orZero (totalValue l)) 0 (filter (\<lambda>l. \<not> l_isArchived l) (lots E))
       * Num (5764607523034235 / 1152921504606846976)"
  by (simp only: commission_def activeLots_def lit_rate(1))

lemma commission_exact:
  assumes "\<forall>l \<in> set (activeLots E). integral (totalValue l)"
    and "magnitude totalValue (activeLots E) < 2 ^ 53"
  shows "commission E = rnd (exactSum totalValue (activeLots E) * (5764607523034235 / 1152921504606846976))"
proof -
  from foldl_exact [of "activeLots E" totalValue 0] assms
  have "reduce (\<lambda>sum l. sum + orZero (totalValue l)) 0 (activeLots E)
        = Num (exactSum totalValue (activeLots E))"
    by (simp add: reduce_def zero_number_def)
  then show ?thesis
    by (simp add: commission_def lit_rate)
qed

text \<open>
  The overwrite of case A when the client holds exactly one transaction of the entity: that
  one is replaced, and no other is left.
\<close>

lemma filter_update_unique:
  assumes "findIndex p xs = Some i" "length (filter p xs) = 1" "p y"
  shows "filter p (xs[i := y]) = [y]"
  using assms
proof (induction xs arbitrary: i)
  case Nil
  then show ?case by simp
next
  case (Cons x xs)
  show ?case
  proof (cases "p x")
    case True
    with Cons.prems show ?thesis by simp
  next
    case False
    with Cons.prems(1) obtain j where j: "findIndex p xs = Some j" "i = Suc j"
      by auto
    from Cons.prems(2) False have "length (filter p xs) = 1" by simp
    from Cons.IH [OF j(1) this Cons.prems(3)] False j(2) show ?thesis by simp
  qed
qed

lemma caseA_rewrites:
  assumes pos: "0 < commission E" and one: "ownCount E c = 1"
  shows "ownCount E (caseA ev E c) = 1"
    and "\<forall>t \<in> set (transactions (caseA ev E c)). ofEntity E t \<longrightarrow> amount t = - commission E"
proof -
  from one have "holds E c" by (simp add: holds_ownCount)
  then obtain i where i: "findIndex (ofEntity E) (transactions c) = Some i"
    by (auto simp: holds_iff)
  let ?t = "(transactions c ! i)\<lparr>amount := - commission E, date := commissionDate ev E,
                t_notes := CommissionNote (auctionDate E), isSettled := True\<rparr>"
  from findIndex_Some [OF i] have e: "ofEntity E ?t" by simp
  have tr: "transactions (caseA ev E c) = (transactions c)[i := ?t]"
    using pos i by (simp add: caseA_def refreshed_def)
  from one have "length (filter (ofEntity E) (transactions c)) = 1"
    by (simp add: ownCount_def)
  from filter_update_unique [OF i this e]
  have f: "filter (ofEntity E) (transactions (caseA ev E c)) = [?t]"
    by (simp only: tr)
  then show "ownCount E (caseA ev E c) = 1"
    by (simp add: ownCount_def)
  show "\<forall>t \<in> set (transactions (caseA ev E c)). ofEntity E t \<longrightarrow> amount t = - commission E"
  proof (intro ballI impI)
    fix t assume "t \<in> set (transactions (caseA ev E c))" "ofEntity E t"
    then have "t \<in> set (filter (ofEntity E) (transactions (caseA ev E c)))" by simp
    with f have "t = ?t" by simp
    then show "amount t = - commission E" by simp
  qed
qed


lemma ids_unique:
  assumes "distinct (map c_id (pre @ c # post))"
  shows "c_id c \<notin> c_id ` set pre" "c_id c \<notin> c_id ` set post"
  using assms by auto

text \<open>
  C3. Buyer change. Client \<open>A\<close> holds the commission of the entity, the buyer is now the
  non-empty name \<open>bn\<close>, and no client of that name holds a transaction of the entity. Then
  after reconciliation \<open>A\<close> holds none. When the recomputed commission is positive, the
  first client named \<open>bn\<close> (a new client when there was none) holds exactly one, whose
  amount is the negated commission, and no other client holds one; when it is not positive,
  no client holds one.
\<close>

theorem buyer_change_migrates:
  assumes u: "user ev \<noteq> None"
    and d: "distinct (map c_id cs)"
    and fresh: "autoId ev \<notin> c_id ` set cs"
    and A: "A \<in> set cs" "holds E A"
    and bn: "buyerName E = Some bn" "bn \<noteq> []"
    and other: "\<forall>c \<in> set cs. c_name c = bn \<longrightarrow> \<not> holds E c"
  shows "(\<exists>x \<in> set (syncBuyerCommission ev E cs). c_id x = c_id A)
    \<and> (\<forall>x \<in> set (syncBuyerCommission ev E cs). c_id x = c_id A \<longrightarrow> \<not> holds E x)
    \<and> (0 < commission E \<longrightarrow>
          (\<exists>b \<in> set (syncBuyerCommission ev E cs).
             c_name b = bn
             \<and> c_id b = (case find (\<lambda>c. c_name c = bn) cs of
                           Some b0 \<Rightarrow> c_id b0 | None \<Rightarrow> autoId ev)
             \<and> filter (\<lambda>t. entityId t = Some (e_id E)) (transactions b) = [newTransaction ev E])
          \<and> amount (newTransaction ev E) = - commission E
          \<and> commissionCount E (syncBuyerCommission ev E cs) = 1)
    \<and> (\<not> 0 < commission E \<longrightarrow> commissionCount E (syncBuyerCommission ev E cs) = 0)"
proof -
  obtain uid where uid: "user ev = Some uid" using u by auto
  let ?R = "syncBuyerCommission ev E cs"
  let ?new = "newTransaction ev E"
  let ?B = "\<lambda>R. \<exists>b \<in> set R. c_name b = bn
          \<and> c_id b = (case find (\<lambda>c. c_name c = bn) cs of Some b0 \<Rightarrow> c_id b0 | None \<Rightarrow> autoId ev)
          \<and> filter (\<lambda>t. entityId t = Some (e_id E)) (transactions b) = [?new]"
  from other bn have nt: "\<not> list_ex (target E) cs"
    by (auto simp: list_ex_iff target_def)
  from A other have An: "c_name A \<noteq> bn" by blast
  have fil: "filter (\<lambda>t. entityId t = Some (e_id E)) ts = filter (ofEntity E) ts" for ts
    by (simp add: ofEntity_def [abs_def])
  show ?thesis
  proof (cases "0 < commission E")
    case pos: True
    from syncBuyerCommission_creates [OF uid d nt bn pos]
    have "(\<exists>x \<in> set ?R. c_id x = c_id A) \<and> (\<forall>x \<in> set ?R. c_id x = c_id A \<longrightarrow> \<not> holds E x)
          \<and> ?B ?R \<and> commissionCount E ?R = 1"
    proof (elim disjE exE conjE)
      fix b pre post
      assume f: "find (\<lambda>c. c_name c = bn) cs = Some b" and s: "cs = pre @ b # post"
        and n: "c_name b = bn" and nh: "\<not> holds E b"
        and R: "?R = map (strip E) pre @ credited ev E b (strip E b) # map (strip E) post"
      let ?b = "credited ev E b (strip E b)"
      from A An n s have Ain: "A \<in> set pre \<or> A \<in> set post" by auto
      then have 1: "\<exists>x \<in> set ?R. c_id x = c_id A"
        by (auto simp: R intro: bexI [of _ "strip E A"])
      from d s have ne: "c_id b \<noteq> c_id A"
        using Ain ids_unique [of pre b post] by (auto simp: image_iff)
      have 2: "\<forall>x \<in> set ?R. c_id x = c_id A \<longrightarrow> \<not> holds E x"
        using ne by (auto simp: R)
      from nh have "filter (ofEntity E) (transactions b) = []"
        by (simp add: holds_def list_ex_iff filter_empty_conv)
      then have "filter (\<lambda>t. entityId t = Some (e_id E)) (transactions ?b) = [?new]"
        by (simp add: fil)
      then have 3: "?B ?R"
        using n f by (auto simp: R intro!: bexI [of _ ?b])
      have 4: "commissionCount E ?R = 1"
        using nh by (simp add: R credited_count not_holds_count)
      from 1 2 3 4 show ?thesis by simp
    next
      assume f: "find (\<lambda>c. c_name c = bn) cs = None"
        and R: "?R = map (strip E) cs @ [newBuyer ev E uid bn]"
      let ?b = "newBuyer ev E uid bn"
      from A have 1: "\<exists>x \<in> set ?R. c_id x = c_id A"
        by (auto simp: R intro: bexI [of _ "strip E A"])
      from A fresh have "autoId ev \<noteq> c_id A" by auto
      then have 2: "\<forall>x \<in> set ?R. c_id x = c_id A \<longrightarrow> \<not> holds E x"
        by (auto simp: R)
      have 3: "?B ?R"
        using f by (auto simp: R fil intro!: bexI [of _ ?b])
      have 4: "commissionCount E ?R = 1"
        by (simp add: R)
      from 1 2 3 4 show ?thesis by simp
    qed
    with pos show ?thesis by simp
  next
    case zero: False
    with syncBuyerCommission_not_found [OF uid d nt] bn have R: "?R = map (strip E) cs"
      by simp
    have "strip E A \<in> set ?R" "c_id (strip E A) = c_id A"
      using A by (simp_all add: R)
    then have 1: "\<exists>x \<in> set ?R. c_id x = c_id A" by blast
    have 2: "\<forall>x \<in> set ?R. c_id x = c_id A \<longrightarrow> \<not> holds E x"
      by (auto simp: R)
    have 3: "commissionCount E ?R = 0" by (simp add: R)
    from 1 2 3 zero show ?thesis by simp
  qed
qed

text \<open>
  C4. Zero commission. When the client that bears the buyer's name holds a transaction of
  the entity and the commission is not positive, reconciliation removes every transaction
  of the entity from that client and leaves the rest of it as it was.
\<close>

theorem zero_commission_removes:
  assumes u: "user ev \<noteq> None"
    and d: "distinct (map c_id cs)"
    and c: "c \<in> set cs" "holds E c" "Some (c_name c) = buyerName E"
    and only: "\<forall>x \<in> set cs. holds E x \<and> Some (c_name x) = buyerName E \<longrightarrow> x = c"
    and z: "\<not> 0 < commission E"
  shows "(\<exists>x \<in> set (syncBuyerCommission ev E cs). c_id x = c_id c)
    \<and> (\<forall>x \<in> set (syncBuyerCommission ev E cs). c_id x = c_id c \<longrightarrow>
          x = c\<lparr>transactions := filter (\<lambda>t. entityId t \<noteq> Some (e_id E)) (transactions c)\<rparr>
          \<and> (\<forall>t \<in> set (transactions x). entityId t \<noteq> Some (e_id E)))"
proof -
  obtain uid where uid: "user ev = Some uid" using u by auto
  let ?R = "syncBuyerCommission ev E cs"
  from c have tc: "target E c" by (simp add: target_def)
  with c(1) have ex: "list_ex (target E) cs" by (auto simp: list_ex_iff)
  from scanned_split [OF ex, of ev] obtain pre c' post where
    s: "cs = pre @ c' # post" and t: "target E c'"
    and r: "scanned ev E cs = map (strip E) pre @ caseA ev E c' # post"
    by blast
  from s have "c' \<in> set cs" by simp
  with only t have "c' = c" by (simp add: target_def)
  with z r have R: "?R = map (strip E) pre @ strip E c # post"
    by (simp add: syncBuyerCommission_found [OF uid d ex] caseA_removes)
  from d s \<open>c' = c\<close> have "distinct (map c_id (pre @ c # post))"
    by blast
  note out = ids_unique [OF this]
  have "strip E c \<in> set ?R" "c_id (strip E c) = c_id c"
    by (simp_all add: R)
  then have 1: "\<exists>x \<in> set ?R. c_id x = c_id c"
    by blast
  have 2: "x = strip E c" if "x \<in> set ?R" "c_id x = c_id c" for x
  proof -
    from that(1) consider "x \<in> strip E ` set pre" | "x = strip E c" | "x \<in> set post"
      unfolding R by auto
    then show ?thesis
    proof cases
      case 1
      then obtain p where "p \<in> set pre" "x = strip E p" by blast
      with that(2) out(1) show ?thesis by (simp add: image_iff) metis
    next
      case 2
      then show ?thesis .
    next
      case 3
      with that(2) out(2) show ?thesis by (simp add: image_iff) metis
    qed
  qed
  have 3: "\<forall>t \<in> set (transactions (strip E c)). entityId t \<noteq> Some (e_id E)"
    by (simp add: strip_explicit)
  have 4: "x = c\<lparr>transactions := filter (\<lambda>t. entityId t \<noteq> Some (e_id E)) (transactions c)\<rparr>
          \<and> (\<forall>t \<in> set (transactions x). entityId t \<noteq> Some (e_id E))"
    if "x \<in> set ?R" "c_id x = c_id c" for x
  proof -
    from 2 [OF that] have x: "x = strip E c" .
    show ?thesis using 3 unfolding x by (simp add: strip_explicit)
  qed
  from 1 4 show ?thesis by blast
qed

section \<open>Reconciliation on example ledgers\<close>

lemma mkEntity_sel [simp]:
  "e_id (mkEntity i b ls) = i"
  "buyerName (mkEntity i b ls) = b"
  "lots (mkEntity i b ls) = ls"
  "auctionDate (mkEntity i b ls) = Some 0"
  by (simp_all add: mkEntity_def)

lemma exEntity_sel [simp]:
  "e_id (exEntity b) = ''e1''" "buyerName (exEntity b) = b"
  "e_id (exShipped b) = ''e1''" "buyerName (exShipped b) = b"
  by (simp_all add: exEntity_def exShipped_def)

lemma exEntity_commission [simp]: "commission (exEntity b) = Num (35 / 2)"
  by (simp add: commission_def activeLots_def reduce_def zero_number_def lit_rate
      exEntity_def exLots_def mkLot_def rnd_int rnd_rate_3500)

lemma exShipped_commission [simp]: "commission (exShipped b) = Num 0"
  by (simp add: commission_def activeLots_def reduce_def zero_number_def lit_rate
      exShipped_def mkLot_def)

lemma ex35_sel [simp]: "e_id ex35 = ''e1''" "buyerName ex35 = Some ''B''"
  by (simp_all add: ex35_def)

lemma ex35_commission: "commission ex35 = Num (6305039478318695 / 36028797018963968)"
  by (simp add: commission_def activeLots_def reduce_def zero_number_def lit_rate
      ex35_def mkLot_def rnd_int rnd_rate_35)

lemma exOld_sel [simp]:
  "entityId exOld = Some ''e1''" "amount exOld = Num (- 5)"
  by (simp_all add: exOld_def mkCommission_def)

lemmas sync_eval =
  syncBuyerCommission_def exEnv_def ofEntity_def updateDoc_def stripped_def
  refreshed_def credited_def newBuyer_def

theorem at_most_one_commission_witness:
  "user exEnv \<noteq> None
   \<and> distinct (map c_id [mkClient ''a'' ''A'' [exOld], mkClient ''b'' ''B'' []])
   \<and> commissionCount (exEntity (Some ''B'')) [mkClient ''a'' ''A'' [exOld], mkClient ''b'' ''B'' []] = 1
   \<and> commissionCount (exEntity (Some ''B''))
        (syncBuyerCommission exEnv (exEntity (Some ''B''))
           [mkClient ''a'' ''A'' [exOld], mkClient ''b'' ''B'' []]) = 1
   \<and> summary (exEntity (Some ''B''))
        (syncBuyerCommission exEnv (exEntity (Some ''B''))
           [mkClient ''a'' ''A'' [exOld], mkClient ''b'' ''B'' []])
       = [(''a'', ''A'', []), (''b'', ''B'', [Num (- (35 / 2))])]"
proof -
  let ?E = "exEntity (Some ''B'')"
  let ?cs = "[mkClient ''a'' ''A'' [exOld], mkClient ''b'' ''B'' []]"
  have h1: "user exEnv \<noteq> None" by (simp add: exEnv_def)
  have h2: "distinct (map c_id ?cs)" by simp
  have h3: "commissionCount ?E ?cs = 1" by (simp add: commissionCount_def ofEntity_def)
  then have h3': "commissionCount ?E ?cs \<le> 1" by simp
  have s: "summary ?E (syncBuyerCommission exEnv ?E ?cs)
           = [(''a'', ''A'', []), (''b'', ''B'', [Num (- (35 / 2))])]"
    by (simp add: sync_eval summary_def)
  have "commissionCount ?E (syncBuyerCommission exEnv ?E ?cs) = 1"
    using at_most_one_commission [OF h1 h2 h3']
    by (simp add: sync_eval commissionCount_def)
  with h1 h2 h3 s show ?thesis by blast
qed


text \<open>
  A lot of value 35: the commission is the double product 0.17500000000000002, which is
  not the double nearest to 0.175, and its negation is the amount written.
\<close>

lemma commission_35_rounded:
  "map totalValue (filter (\<lambda>l. \<not> l_isArchived l) (lots ex35)) = [Num 35]
   \<and> commission ex35 = Num (6305039478318695 / 36028797018963968)
   \<and> lit (35 * (5 / 1000)) = Num (3152519739159347 / 18014398509481984)
   \<and> commission ex35 \<noteq> lit (35 * (5 / 1000))
   \<and> summary ex35 (syncBuyerCommission exEnv ex35 [])
       = [(''new1'', ''B'', [Num (- (6305039478318695 / 36028797018963968))])]"
proof -
  have l: "map totalValue (filter (\<lambda>l. \<not> l_isArchived l) (lots ex35)) = [Num 35]"
    by (simp add: ex35_def mkLot_def)
  have t: "lit (35 * (5 / 1000)) = Num (3152519739159347 / 18014398509481984)"
    by (simp add: lit_def rnd_exact_rate_35)
  have s: "summary ex35 (syncBuyerCommission exEnv ex35 [])
       = [(''new1'', ''B'', [Num (- (6305039478318695 / 36028797018963968))])]"
    by (simp add: sync_eval summary_def ex35_commission)
  from l t s ex35_commission show ?thesis by simp
qed

theorem buyer_change_migrates_counterexample:
  "syncBuyerCommission exEnv (exShipped (Some ''B'')) [mkClient ''a'' ''A'' [exOld]]
     = [mkClient ''a'' ''A'' []]"
  by (simp add: sync_eval mkClient_def)

theorem buyer_change_migrates_witness:
  "user exEnv \<noteq> None
   \<and> autoId exEnv \<notin> c_id ` set [mkClient ''a'' ''A'' [exOld]]
   \<and> holds (exEntity (Some ''B'')) (mkClient ''a'' ''A'' [exOld])
   \<and> 0 < commission (exEntity (Some ''B''))
   \<and> summary (exEntity (Some ''B''))
        (syncBuyerCommission exEnv (exEntity (Some ''B'')) [mkClient ''a'' ''A'' [exOld]])
       = [(''a'', ''A'', []), (''new1'', ''B'', [Num (- (35 / 2))])]
   \<and> commissionCount (exEntity (Some ''B''))
        (syncBuyerCommission exEnv (exEntity (Some ''B'')) [mkClient ''a'' ''A'' [exOld]]) = 1"
proof -
  let ?E = "exEntity (Some ''B'')"
  let ?A = "mkClient ''a'' ''A'' [exOld]"
  have h1: "user exEnv \<noteq> None" by (simp add: exEnv_def)
  have h2: "distinct (map c_id [?A])" by simp
  have h3: "autoId exEnv \<notin> c_id ` set [?A]" by (simp add: exEnv_def)
  have h4: "?A \<in> set [?A]" by simp
  have h5: "holds ?E ?A" by (simp add: holds_def ofEntity_def)
  have h6: "buyerName ?E = Some ''B''" by simp
  have h7: "''B'' \<noteq> []" by simp
  have h8: "\<forall>c \<in> set [?A]. c_name c = ''B'' \<longrightarrow> \<not> holds ?E c" by simp
  have h9: "0 < commission ?E" by simp
  have n: "commissionCount ?E (syncBuyerCommission exEnv ?E [?A]) = 1"
    using buyer_change_migrates [OF h1 h2 h3 h4 h5 h6 h7 h8] h9 by blast
  have s: "summary ?E (syncBuyerCommission exEnv ?E [?A])
           = [(''a'', ''A'', []), (''new1'', ''B'', [Num (- (35 / 2))])]"
    by (simp add: sync_eval summary_def)
  from h1 h3 h5 h9 n s show ?thesis by blast
qed

theorem zero_commission_removes_witness:
  "user exEnv \<noteq> None
   \<and> holds (exShipped (Some ''A'')) (mkClient ''a'' ''A'' [exOld])
   \<and> Some (c_name (mkClient ''a'' ''A'' [exOld])) = buyerName (exShipped (Some ''A''))
   \<and> \<not> 0 < commission (exShipped (Some ''A''))
   \<and> syncBuyerCommission exEnv (exShipped (Some ''A''))
        [mkClient ''a'' ''A'' [exOld], mkClient ''b'' ''B'' []]
       = [mkClient ''a'' ''A'' [], mkClient ''b'' ''B'' []]"
proof -
  let ?E = "exShipped (Some ''A'')"
  let ?A = "mkClient ''a'' ''A'' [exOld]"
  let ?cs = "[?A, mkClient ''b'' ''B'' []]"
  let ?R = "syncBuyerCommission exEnv ?E ?cs"
  have h1: "user exEnv \<noteq> None" by (simp add: exEnv_def)
  have h2: "distinct (map c_id ?cs)" by simp
  have h3: "?A \<in> set ?cs" by simp
  have h4: "holds ?E ?A" by (simp add: holds_def ofEntity_def)
  have h5: "Some (c_name ?A) = buyerName ?E" by simp
  have h6: "\<forall>x \<in> set ?cs. holds ?E x \<and> Some (c_name x) = buyerName ?E \<longrightarrow> x = ?A"
    by (simp add: holds_def)
  have h7: "\<not> 0 < commission ?E" by simp
  note t = zero_commission_removes [OF h1 h2 h3 h4 h5 h6 h7]
  have r: "?R = [mkClient ''a'' ''A'' [], mkClient ''b'' ''B'' []]"
    using t by (simp add: sync_eval mkClient_def)
  from h1 h4 h5 h7 r show ?thesis by blast
qed

theorem empty_buyer_strips_all_witness:
  "user exEnv \<noteq> None
   \<and> buyerName (exEntity (Some [])) = Some []
   \<and> syncBuyerCommission exEnv (exEntity (Some []))
        [mkClient ''a'' ''A'' [exOld], mkClient ''b'' ''B'' [mkTransaction ''1'' 500, exOld]]
       = [mkClient ''a'' ''A'' [], mkClient ''b'' ''B'' [mkTransaction ''1'' 500]]
   \<and> syncBuyerCommission exEnv (exEntity None)
        [mkClient ''a'' ''A'' [exOld], mkClient ''b'' ''B'' [mkTransaction ''1'' 500, exOld]]
       = [mkClient ''a'' ''A'' [], mkClient ''b'' ''B'' [mkTransaction ''1'' 500]]"
proof -
  let ?cs = "[mkClient ''a'' ''A'' [exOld], mkClient ''b'' ''B'' [mkTransaction ''1'' 500, exOld]]"
  have h1: "user exEnv \<noteq> None" by (simp add: exEnv_def)
  have h2: "distinct (map c_id ?cs)" by simp
  have e: "entityId (mkTransaction ''1'' 500) = None" by (simp add: mkTransaction_def)
  have a: "syncBuyerCommission exEnv (exEntity (Some [])) ?cs
           = [mkClient ''a'' ''A'' [], mkClient ''b'' ''B'' [mkTransaction ''1'' 500]]"
  proof -
    have h3: "buyerName (exEntity (Some [])) = None \<or> buyerName (exEntity (Some [])) = Some []"
      by simp
    have h4: "\<forall>c \<in> set ?cs. Some (c_name c) \<noteq> buyerName (exEntity (Some []))" by simp
    from empty_buyer_strips_all [OF h1 h2 h3 h4] show ?thesis
      by (simp add: mkClient_def e)
  qed
  have b: "syncBuyerCommission exEnv (exEntity None) ?cs
           = [mkClient ''a'' ''A'' [], mkClient ''b'' ''B'' [mkTransaction ''1'' 500]]"
  proof -
    have h3: "buyerName (exEntity None) = None \<or> buyerName (exEntity None) = Some []"
      by simp
    have h4: "\<forall>c \<in> set ?cs. Some (c_name c) \<noteq> buyerName (exEntity None)" by simp
    from empty_buyer_strips_all [OF h1 h2 h3 h4] show ?thesis
      by (simp add: mkClient_def e)
  qed
  from h1 a b show ?thesis by simp
qed


section \<open>Dashboard: the upcoming deadline, properties\<close>

lemma find_entity_of_lot:
  assumes "distinct (lotIds es)" "e \<in> set es" "l \<in> set (lots e)"
  shows "find (\<lambda>e. list_ex (\<lambda>l'. l_id l' = l_id l) (lots e)) es = Some e"
  using assms
proof (induction es)
  case Nil
  then show ?case by simp
next
  case (Cons x xs)
  let ?P = "\<lambda>e. list_ex (\<lambda>l'. l_id l' = l_id l) (lots e)"
  from Cons.prems(1) have dx: "distinct (lotIds xs)"
    and disj: "l_id ` set (lots x) \<inter> set (lotIds xs) = {}"
    by (auto simp: lotIds_def)
  show ?case
  proof (cases "e = x")
    case True
    with Cons.prems(3) have "?P x" by (auto simp: list_ex_iff)
    with True show ?thesis by simp
  next
    case False
    with Cons.prems(2) have ein: "e \<in> set xs" by simp
    with Cons.prems(3) have "l_id l \<in> set (lotIds xs)"
      by (auto simp: lotIds_def)
    with disj have "\<not> ?P x" by (auto simp: list_ex_iff)
    with Cons.IH [OF dx ein Cons.prems(3)] show ?thesis by simp
  qed
qed

lemma withAuctionDate_own:
  assumes "distinct (lotIds es)" "e \<in> set es" "l \<in> set (lots e)"
  shows "withAuctionDate es l = \<lparr>dl_lot = l, dl_auctionDate = auctionDate e\<rparr>"
  by (simp add: withAuctionDate_def find_entity_of_lot [OF assms])

lemma candidates_iff:
  assumes d: "distinct (lotIds es)"
  shows "x \<in> set (candidates now es) \<longleftrightarrow>
     (\<exists>e \<in> set es. \<exists>l \<in> set (lots e). qualifies now e l
        \<and> x = \<lparr>dl_lot = l, dl_auctionDate = auctionDate e\<rparr>)"
proof
  assume "x \<in> set (candidates now es)"
  then obtain l where l: "l \<in> set (allLots es)" "\<not> paid70 l" "x = withAuctionDate es l"
    and a: "deadlineAhead now x"
    by (auto simp: candidates_def)
  from l(1) obtain e where e: "e \<in> set es" "l \<in> set (lots e)" "\<not> l_isArchived l"
    by (auto simp: allLots_def)
  from withAuctionDate_own [OF d e(1,2)] l(3)
  have x: "x = \<lparr>dl_lot = l, dl_auctionDate = auctionDate e\<rparr>" by simp
  with a e(3) l(2) have "qualifies now e l"
    by (simp add: qualifies_def deadlineAhead_def)
  with e x show "\<exists>e \<in> set es. \<exists>l \<in> set (lots e). qualifies now e l
        \<and> x = \<lparr>dl_lot = l, dl_auctionDate = auctionDate e\<rparr>"
    by blast
next
  assume "\<exists>e \<in> set es. \<exists>l \<in> set (lots e). qualifies now e l
        \<and> x = \<lparr>dl_lot = l, dl_auctionDate = auctionDate e\<rparr>"
  then obtain e l where e: "e \<in> set es" "l \<in> set (lots e)" and q: "qualifies now e l"
    and x: "x = \<lparr>dl_lot = l, dl_auctionDate = auctionDate e\<rparr>"
    by blast
  from q e have "l \<in> set (filter (\<lambda>lot. \<not> paid70 lot) (allLots es))"
    by (auto simp: qualifies_def allLots_def)
  moreover from withAuctionDate_own [OF d e] x have "x = withAuctionDate es l" by simp
  moreover from q x have "deadlineAhead now x"
    by (simp add: qualifies_def deadlineAhead_def)
  ultimately show "x \<in> set (candidates now es)"
    by (simp add: candidates_def)
qed

lemma sort_key_head:
  assumes "sort_key f xs = x # ys"
  shows "x \<in> set xs \<and> (\<forall>y \<in> set xs. f x \<le> f y)"
proof -
  have "set (sort_key f xs) = set xs" by simp
  with assms have s: "set xs = insert x (set ys)" by simp
  have "sorted (map f (sort_key f xs))" by (rule sorted_sort_key)
  with assms have "\<forall>y \<in> set ys. f x \<le> f y" by simp
  with s show ?thesis by auto
qed

lemma computeUpcomingDeadline_candidates:
  "computeUpcomingDeadline now es =
     (case sort_key sortDate (candidates now es) of [] \<Rightarrow> None | x # _ \<Rightarrow> Some x)"
  by (simp add: computeUpcomingDeadline_def candidates_def)

text \<open>
  C7. The upcoming deadline, when lot identifiers are unique across entities. The card is
  empty exactly when no entity has an active, unpaid lot whose deadline is still ahead;
  otherwise it shows such a lot, with the auction date of its entity, and no qualifying lot
  has an earlier deadline.
\<close>

theorem upcoming_deadline_earliest:
  assumes d: "distinct (lotIds es)"
  shows "(computeUpcomingDeadline now es = None
            \<longleftrightarrow> \<not> (\<exists>e \<in> set es. \<exists>l \<in> set (lots e). qualifies now e l))
    \<and> (\<forall>x. computeUpcomingDeadline now es = Some x \<longrightarrow>
          (\<exists>e \<in> set es. dl_lot x \<in> set (lots e) \<and> qualifies now e (dl_lot x)
              \<and> dl_auctionDate x = auctionDate e
              \<and> (\<forall>e' \<in> set es. \<forall>l' \<in> set (lots e'). qualifies now e' l' \<longrightarrow>
                    (\<exists>a a'. auctionDate e = Some a \<and> auctionDate e' = Some a'
                       \<and> a + fifteenDays \<le> a' + fifteenDays))))"
proof -
  let ?C = "candidates now es"
  have none: "computeUpcomingDeadline now es = None
            \<longleftrightarrow> \<not> (\<exists>e \<in> set es. \<exists>l \<in> set (lots e). qualifies now e l)"
  proof -
    have "computeUpcomingDeadline now es = None \<longleftrightarrow> sort_key sortDate ?C = []"
      by (simp add: computeUpcomingDeadline_candidates split: list.splits)
    also have "\<dots> \<longleftrightarrow> set ?C = {}"
      by (metis set_empty set_sort)
    also have "\<dots> \<longleftrightarrow> \<not> (\<exists>e \<in> set es. \<exists>l \<in> set (lots e). qualifies now e l)"
    proof -
      have "(\<exists>x. x \<in> set ?C) \<longleftrightarrow> (\<exists>e \<in> set es. \<exists>l \<in> set (lots e). qualifies now e l)"
        unfolding candidates_iff [OF d] by blast
      then show ?thesis by auto
    qed
    finally show ?thesis .
  qed
  have some: "\<exists>e \<in> set es. dl_lot x \<in> set (lots e) \<and> qualifies now e (dl_lot x)
              \<and> dl_auctionDate x = auctionDate e
              \<and> (\<forall>e' \<in> set es. \<forall>l' \<in> set (lots e'). qualifies now e' l' \<longrightarrow>
                    (\<exists>a a'. auctionDate e = Some a \<and> auctionDate e' = Some a'
                       \<and> a + fifteenDays \<le> a' + fifteenDays))"
    if "computeUpcomingDeadline now es = Some x" for x
  proof -
    from that obtain ys where "sort_key sortDate ?C = x # ys"
      by (auto simp: computeUpcomingDeadline_candidates split: list.splits)
    from sort_key_head [OF this] have xin: "x \<in> set ?C"
      and least: "\<forall>y \<in> set ?C. sortDate x \<le> sortDate y" by simp_all
    from xin candidates_iff [OF d, of x now] obtain e l where
      e: "e \<in> set es" "l \<in> set (lots e)" and q: "qualifies now e l"
      and x: "x = \<lparr>dl_lot = l, dl_auctionDate = auctionDate e\<rparr>"
      by blast
    from q obtain a where a: "auctionDate e = Some a"
      by (auto simp: qualifies_def split: option.splits)
    have "\<exists>a a'. auctionDate e = Some a \<and> auctionDate e' = Some a'
                       \<and> a + fifteenDays \<le> a' + fifteenDays"
      if e': "e' \<in> set es" "l' \<in> set (lots e')" and q': "qualifies now e' l'" for e' l'
    proof -
      from q' obtain a' where a': "auctionDate e' = Some a'"
        by (auto simp: qualifies_def split: option.splits)
      let ?y = "\<lparr>dl_lot = l', dl_auctionDate = auctionDate e'\<rparr>"
      from e' q' candidates_iff [OF d, of ?y now] have "?y \<in> set ?C" by blast
      with least have "sortDate x \<le> sortDate ?y" by blast
      with x a a' have "a \<le> a'" by (simp add: sortDate_def)
      with a a' show ?thesis by simp
    qed
    with e q x show ?thesis by auto
  qed
  from none some show ?thesis by blast
qed

lemmas deadline_eval =
  computeUpcomingDeadline_def allLots_def withAuctionDate_def deadlineAhead_def sortDate_def
  paid70_def fifteenDays_def mkEntity_def mkLot_def exAuction_def exAuctions_def

theorem upcoming_deadline_earliest_witness:
  "distinct (lotIds exAuctions)
   \<and> computeUpcomingDeadline 60 exAuctions
       = Some \<lparr>dl_lot = mkLot ''l2'' 2000 False, dl_auctionDate = Some 50\<rparr>
   \<and> computeUpcomingDeadline (100 + fifteenDays) exAuctions = None"
proof -
  have h: "distinct (lotIds exAuctions)"
    by (simp add: lotIds_def exAuctions_def exAuction_def mkEntity_def mkLot_def)
  have a: "computeUpcomingDeadline 60 exAuctions
       = Some \<lparr>dl_lot = mkLot ''l2'' 2000 False, dl_auctionDate = Some 50\<rparr>"
    by (simp add: deadline_eval)
  have "\<not> (\<exists>e \<in> set exAuctions. \<exists>l \<in> set (lots e). qualifies (100 + fifteenDays) e l)"
    by (simp add: exAuctions_def exAuction_def mkEntity_def qualifies_def)
  with upcoming_deadline_earliest [OF h, of "100 + fifteenDays"]
  have b: "computeUpcomingDeadline (100 + fifteenDays) exAuctions = None"
    by blast
  from h a b show ?thesis by blast
qed

theorem upcoming_deadline_counterexample:
  "lots (exShipped None) = [mkLot ''l1'' 1000 True]
   \<and> is70Paid (mkLot ''l1'' 1000 True) = None
   \<and> auctionDate (exShipped None) = Some 0
   \<and> (0::int) < 0 + fifteenDays
   \<and> computeUpcomingDeadline 0 [exShipped None] = None"
  by (simp add: computeUpcomingDeadline_def allLots_def exShipped_def mkEntity_def mkLot_def
      fifteenDays_def)

end
